theory Spec2Isabelle
  imports Main
begin

section \<open>Python strings\<close>

text \<open>
  A Python \<^verbatim>\<open>str\<close> is a sequence of Unicode code points, so a character is modelled
  by its code point and a string by a list of code points. The literals of the source
  are ASCII apart from the two box-drawing characters tested by the renderer; an ASCII
  literal is written \<open>str ''...''\<close>.
\<close>

type_synonym uchar = nat
type_synonym ustring = "uchar list"

definition str :: "string \<Rightarrow> ustring" where
  "str s = map of_char s"

definition NEWLINE :: uchar where "NEWLINE = 0x0A"
definition COMMA :: uchar where "COMMA = 0x2C"
definition BACKTICK :: uchar where "BACKTICK = 0x60"
definition SQUOTE :: uchar where "SQUOTE = 0x27"
definition DQUOTE :: uchar where "DQUOTE = 0x22"

text \<open>The characters removed by \<^verbatim>\<open>str.strip()\<close> called without an argument
  (the code points for which \<^verbatim>\<open>str.isspace\<close> holds).\<close>

definition isspace :: "uchar \<Rightarrow> bool" where
  "isspace c \<longleftrightarrow>
     (0x09 \<le> c \<and> c \<le> 0x0D) \<or> (0x1C \<le> c \<and> c \<le> 0x20) \<or> c = 0x85 \<or> c = 0xA0 \<or>
     c = 0x1680 \<or> (0x2000 \<le> c \<and> c \<le> 0x200A) \<or> c = 0x2028 \<or> c = 0x2029 \<or>
     c = 0x202F \<or> c = 0x205F \<or> c = 0x3000"

definition lstrip :: "ustring \<Rightarrow> ustring" where
  "lstrip s = dropWhile isspace s"

definition rstrip :: "ustring \<Rightarrow> ustring" where
  "rstrip s = rev (dropWhile isspace (rev s))"

definition strip :: "ustring \<Rightarrow> ustring" where
  "strip s = rstrip (lstrip s)"

text \<open>\<^verbatim>\<open>s.rstrip(c)\<close> and \<^verbatim>\<open>s.strip(c)\<close> for a one-character argument.\<close>

definition rstrip_char :: "uchar \<Rightarrow> ustring \<Rightarrow> ustring" where
  "rstrip_char c s = rev (dropWhile (\<lambda>x. x = c) (rev s))"

definition strip_char :: "uchar \<Rightarrow> ustring \<Rightarrow> ustring" where
  "strip_char c s = rstrip_char c (dropWhile (\<lambda>x. x = c) s)"

definition startswith :: "ustring \<Rightarrow> ustring \<Rightarrow> bool" where
  "startswith s p \<longleftrightarrow> take (length p) s = p"

definition endswith :: "ustring \<Rightarrow> ustring \<Rightarrow> bool" where
  "endswith s p \<longleftrightarrow> length p \<le> length s \<and> drop (length s - length p) s = p"

text \<open>\<^verbatim>\<open>p in s\<close> for strings: \<open>p\<close> occurs in \<open>s\<close> as a substring.\<close>

fun str_contains :: "ustring \<Rightarrow> ustring \<Rightarrow> bool" where
  "str_contains [] p = (p = [])"
| "str_contains (x # xs) p = (startswith (x # xs) p \<or> str_contains xs p)"

text \<open>\<^verbatim>\<open>s.split(c)\<close> for a one-character separator: the empty string gives one empty
  piece.\<close>

fun str_split :: "uchar \<Rightarrow> ustring \<Rightarrow> ustring list" where
  "str_split c [] = [[]]"
| "str_split c (x # xs) =
     (if x = c then [] # str_split c xs
      else (case str_split c xs of [] \<Rightarrow> [[x]] | l # ls \<Rightarrow> (x # l) # ls))"

fun str_join :: "ustring \<Rightarrow> ustring list \<Rightarrow> ustring" where
  "str_join sep [] = []"
| "str_join sep [x] = x"
| "str_join sep (x # y # ys) = x @ sep @ str_join sep (y # ys)"

text \<open>What follows the first occurrence of a (non-empty) separator, if there is one.\<close>

fun after_first :: "ustring \<Rightarrow> ustring \<Rightarrow> ustring option" where
  "after_first sep [] = None"
| "after_first sep (x # xs) =
     (if startswith (x # xs) sep then Some (drop (length sep) (x # xs))
      else after_first sep xs)"

datatype error =
  IndexError | KeyError | TypeError
  | FileNotFoundError | FileExistsError | IsADirectoryError | NotADirectoryError

text \<open>\<^verbatim>\<open>s.split(sep, 1)[1]\<close>: with no occurrence of the separator the split has one
  piece only and the index is out of range.\<close>

definition split1_second :: "ustring \<Rightarrow> ustring \<Rightarrow> error + ustring" where
  "split1_second s sep =
     (case after_first sep s of None \<Rightarrow> Inl IndexError | Some r \<Rightarrow> Inr r)"

text \<open>\<^verbatim>\<open>s.rsplit(c, 1)[0]\<close>: what precedes the last occurrence of \<open>c\<close>, the whole
  string when there is none.\<close>

definition rsplit1_first :: "ustring \<Rightarrow> uchar \<Rightarrow> ustring" where
  "rsplit1_first s c =
     (if c \<in> set s then rev (tl (dropWhile (\<lambda>x. x \<noteq> c) (rev s))) else s)"

section \<open>The document tree\<close>

text \<open>
  The dictionaries of the source have a fixed set of keys, each always holding a value
  of one type, and are only read with \<^verbatim>\<open>get\<close> and written by key: a record whose
  fields are optional, \<open>None\<close> for a key that is absent. The key \<^verbatim>\<open>subsections\<close> is
  set when a section is created and never removed.
\<close>

record Subsection =
  sub_id :: "ustring option"
  sub_title :: "ustring option"
  sub_content :: "ustring option"
  sub_code :: "ustring option"
  sub_notes :: "ustring list option"
  sub_decisions :: "ustring list option"

record Section =
  sec_id :: "ustring option"
  sec_title :: "ustring option"
  sec_icon :: "ustring option"
  sec_subsections :: "Subsection list"

definition empty_subsection :: Subsection where
  "empty_subsection =
     \<lparr>sub_id = None, sub_title = None, sub_content = None, sub_code = None,
      sub_notes = None, sub_decisions = None\<rparr>"

definition new_section :: Section where
  "new_section = \<lparr>sec_id = None, sec_title = None, sec_icon = None, sec_subsections = []\<rparr>"

section \<open>The structural extractor: \<^verbatim>\<open>parse_ts_file\<close>\<close>

datatype pstate =
  STATE_ROOT | STATE_IN_SECTIONS_ARRAY | STATE_IN_SECTION | STATE_IN_SUBSECTIONS_ARRAY
  | STATE_IN_SUBSECTION | STATE_IN_CONTENT | STATE_IN_CODE | STATE_IN_NOTES
  | STATE_IN_DECISIONS

record parser =
  state :: pstate
  buffer :: "ustring list"
  current_section :: "Section option"
  current_subsection :: "Subsection option"
  sections :: "Section list"

definition clean_str :: "ustring \<Rightarrow> ustring" where
  "clean_str s0 =
     (let s = rstrip_char COMMA (strip s0) in
      if startswith s [SQUOTE] \<and> endswith s [SQUOTE] then butlast (tl s)
      else if startswith s [DQUOTE] \<and> endswith s [DQUOTE] then butlast (tl s)
      else s)"

text \<open>Item assignment on \<^verbatim>\<open>current_section\<close> and \<^verbatim>\<open>current_subsection\<close>: on
  \<^verbatim>\<open>None\<close> Python raises a TypeError.\<close>

definition set_section :: "(Section \<Rightarrow> Section) \<Rightarrow> parser \<Rightarrow> error + parser" where
  "set_section f st =
     (case current_section st of
        None \<Rightarrow> Inl TypeError
      | Some s \<Rightarrow> Inr (st\<lparr>current_section := Some (f s)\<rparr>))"

definition set_subsection :: "(Subsection \<Rightarrow> Subsection) \<Rightarrow> parser \<Rightarrow> error + parser" where
  "set_subsection f st =
     (case current_subsection st of
        None \<Rightarrow> Inl TypeError
      | Some s \<Rightarrow> Inr (st\<lparr>current_subsection := Some (f s)\<rparr>))"

definition step_root :: "parser \<Rightarrow> ustring \<Rightarrow> error + parser" where
  "step_root st line =
     (if str_contains line (str ''export const specSections'')
      then Inr (st\<lparr>state := STATE_IN_SECTIONS_ARRAY\<rparr>)
      else Inr st)"

definition step_in_sections_array :: "parser \<Rightarrow> ustring \<Rightarrow> error + parser" where
  "step_in_sections_array st stripped =
     (if stripped = str ''{''
      then Inr (st\<lparr>current_section := Some new_section, state := STATE_IN_SECTION\<rparr>)
      else if stripped = str ''];'' then Inr (st\<lparr>state := STATE_ROOT\<rparr>)
      else Inr st)"

text \<open>
  On the closing brace the source appends \<^verbatim>\<open>current_section\<close> whatever it is; a
  \<^verbatim>\<open>None\<close> appended there would make the renderer raise, and the model reports it
  at once (no run reaches that branch, see \<open>parser_inv\<close> below).
\<close>

definition step_in_section :: "parser \<Rightarrow> ustring \<Rightarrow> error + parser" where
  "step_in_section st stripped =
     (if startswith stripped (str ''id:'') then
        (case split1_second stripped (str '':'') of
           Inl e \<Rightarrow> Inl e
         | Inr v \<Rightarrow> set_section (\<lambda>s. s\<lparr>sec_id := Some (clean_str v)\<rparr>) st)
      else if startswith stripped (str ''title:'') then
        (case split1_second stripped (str '':'') of
           Inl e \<Rightarrow> Inl e
         | Inr v \<Rightarrow> set_section (\<lambda>s. s\<lparr>sec_title := Some (clean_str v)\<rparr>) st)
      else if startswith stripped (str ''icon:'') then
        (case split1_second stripped (str '':'') of
           Inl e \<Rightarrow> Inl e
         | Inr v \<Rightarrow> set_section (\<lambda>s. s\<lparr>sec_icon := Some (clean_str v)\<rparr>) st)
      else if startswith stripped (str ''subsections: ['') then
        Inr (st\<lparr>state := STATE_IN_SUBSECTIONS_ARRAY\<rparr>)
      else if stripped = str ''},'' \<or> stripped = str ''}'' then
        (case current_section st of
           None \<Rightarrow> Inl TypeError
         | Some s \<Rightarrow> Inr (st\<lparr>sections := sections st @ [s], state := STATE_IN_SECTIONS_ARRAY\<rparr>))
      else Inr st)"

definition step_in_subsections_array :: "parser \<Rightarrow> ustring \<Rightarrow> error + parser" where
  "step_in_subsections_array st stripped =
     (if stripped = str ''{''
      then Inr (st\<lparr>current_subsection := Some empty_subsection, state := STATE_IN_SUBSECTION\<rparr>)
      else if stripped = str ''],'' \<or> stripped = str '']''
      then Inr (st\<lparr>state := STATE_IN_SECTION\<rparr>)
      else Inr st)"

text \<open>The test that decides whether a \<^verbatim>\<open>content\<close> or \<^verbatim>\<open>code\<close> field closes on
  the line that opens it.\<close>

definition single_line :: "ustring \<Rightarrow> bool" where
  "single_line v \<longleftrightarrow>
     endswith (strip v) [BACKTICK, COMMA] \<or>
     (endswith (strip v) [BACKTICK] \<and> length (strip v) > 1)"

text \<open>
  The closing brace of a subsection appends it to the subsections of the current
  section when there is one (a section is a non-empty dictionary holding the key
  \<^verbatim>\<open>subsections\<close>, so the guard of the source is \<open>current_section \<noteq> None\<close>). As for
  sections, appending \<^verbatim>\<open>None\<close> is reported at once.
\<close>

definition step_in_subsection :: "parser \<Rightarrow> ustring \<Rightarrow> ustring \<Rightarrow> error + parser" where
  "step_in_subsection st line stripped =
     (if startswith stripped (str ''id:'') then
        (case split1_second stripped (str '':'') of
           Inl e \<Rightarrow> Inl e
         | Inr v \<Rightarrow> set_subsection (\<lambda>s. s\<lparr>sub_id := Some (clean_str v)\<rparr>) st)
      else if startswith stripped (str ''title:'') then
        (case split1_second stripped (str '':'') of
           Inl e \<Rightarrow> Inl e
         | Inr v \<Rightarrow> set_subsection (\<lambda>s. s\<lparr>sub_title := Some (clean_str v)\<rparr>) st)
      else if startswith stripped (str ''content: `'') then
        (case split1_second line (str ''content: `'') of
           Inl e \<Rightarrow> Inl e
         | Inr content_val \<Rightarrow>
             if single_line content_val
             then set_subsection
                    (\<lambda>s. s\<lparr>sub_content := Some (rsplit1_first content_val BACKTICK)\<rparr>) st
             else Inr (st\<lparr>buffer := [content_val], state := STATE_IN_CONTENT\<rparr>))
      else if startswith stripped (str ''code: `'') then
        (case split1_second line (str ''code: `'') of
           Inl e \<Rightarrow> Inl e
         | Inr code_val \<Rightarrow>
             if single_line code_val
             then set_subsection
                    (\<lambda>s. s\<lparr>sub_code := Some (rsplit1_first code_val BACKTICK)\<rparr>) st
             else Inr (st\<lparr>buffer := [code_val], state := STATE_IN_CODE\<rparr>))
      else if startswith stripped (str ''notes: ['') then
        (case set_subsection (\<lambda>s. s\<lparr>sub_notes := Some []\<rparr>) st of
           Inl e \<Rightarrow> Inl e
         | Inr st' \<Rightarrow> Inr (st'\<lparr>state := STATE_IN_NOTES\<rparr>))
      else if startswith stripped (str ''decisions: ['') then
        (case set_subsection (\<lambda>s. s\<lparr>sub_decisions := Some []\<rparr>) st of
           Inl e \<Rightarrow> Inl e
         | Inr st' \<Rightarrow> Inr (st'\<lparr>state := STATE_IN_DECISIONS\<rparr>))
      else if stripped = str ''},'' \<or> stripped = str ''}'' then
        (case current_section st of
           None \<Rightarrow> Inr (st\<lparr>state := STATE_IN_SUBSECTIONS_ARRAY\<rparr>)
         | Some sec \<Rightarrow>
             (case current_subsection st of
                None \<Rightarrow> Inl TypeError
              | Some sub \<Rightarrow>
                  Inr (st\<lparr>current_section :=
                             Some (sec\<lparr>sec_subsections := sec_subsections sec @ [sub]\<rparr>),
                          state := STATE_IN_SUBSECTIONS_ARRAY\<rparr>)))
      else Inr st)"

text \<open>The test for the line that closes a buffered field, on the stripped line.\<close>

definition closing_line :: "ustring \<Rightarrow> bool" where
  "closing_line stripped \<longleftrightarrow>
     endswith stripped [BACKTICK, COMMA] \<or> stripped = [BACKTICK] \<or>
     stripped = [BACKTICK, COMMA]"

text \<open>\<^verbatim>\<open>line.rstrip().rstrip(',').rstrip('`')\<close>\<close>

definition closing_val :: "ustring \<Rightarrow> ustring" where
  "closing_val line = rstrip_char BACKTICK (rstrip_char COMMA (rstrip line))"

definition step_in_content :: "parser \<Rightarrow> ustring \<Rightarrow> ustring \<Rightarrow> error + parser" where
  "step_in_content st line stripped =
     (if closing_line stripped then
        (let val = closing_val line;
             buffer' = (if val \<noteq> [] then buffer st @ [val] else buffer st)
         in (case set_subsection
                    (\<lambda>s. s\<lparr>sub_content := Some (str_join [NEWLINE] buffer')\<rparr>)
                    (st\<lparr>buffer := buffer'\<rparr>) of
               Inl e \<Rightarrow> Inl e
             | Inr st' \<Rightarrow> Inr (st'\<lparr>state := STATE_IN_SUBSECTION\<rparr>)))
      else Inr (st\<lparr>buffer := buffer st @ [line]\<rparr>))"

definition step_in_code :: "parser \<Rightarrow> ustring \<Rightarrow> ustring \<Rightarrow> error + parser" where
  "step_in_code st line stripped =
     (if closing_line stripped then
        (let val = closing_val line;
             buffer' = (if val \<noteq> [] then buffer st @ [val] else buffer st)
         in (case set_subsection
                    (\<lambda>s. s\<lparr>sub_code := Some (str_join [NEWLINE] buffer')\<rparr>)
                    (st\<lparr>buffer := buffer'\<rparr>) of
               Inl e \<Rightarrow> Inl e
             | Inr st' \<Rightarrow> Inr (st'\<lparr>state := STATE_IN_SUBSECTION\<rparr>)))
      else Inr (st\<lparr>buffer := buffer st @ [line]\<rparr>))"

text \<open>\<^verbatim>\<open>stripped.strip().rstrip(',').strip("'").strip('"')\<close>\<close>

definition item_val :: "ustring \<Rightarrow> ustring" where
  "item_val stripped =
     strip_char DQUOTE (strip_char SQUOTE (rstrip_char COMMA (strip stripped)))"

text \<open>\<^verbatim>\<open>current_subsection['notes'].append(val)\<close>: a TypeError on \<^verbatim>\<open>None\<close>, a
  KeyError when the key is absent.\<close>

definition append_note :: "ustring \<Rightarrow> parser \<Rightarrow> error + parser" where
  "append_note val st =
     (case current_subsection st of
        None \<Rightarrow> Inl TypeError
      | Some sub \<Rightarrow>
          (case sub_notes sub of
             None \<Rightarrow> Inl KeyError
           | Some ns \<Rightarrow>
               Inr (st\<lparr>current_subsection := Some (sub\<lparr>sub_notes := Some (ns @ [val])\<rparr>)\<rparr>)))"

definition append_decision :: "ustring \<Rightarrow> parser \<Rightarrow> error + parser" where
  "append_decision val st =
     (case current_subsection st of
        None \<Rightarrow> Inl TypeError
      | Some sub \<Rightarrow>
          (case sub_decisions sub of
             None \<Rightarrow> Inl KeyError
           | Some ds \<Rightarrow>
               Inr (st\<lparr>current_subsection :=
                          Some (sub\<lparr>sub_decisions := Some (ds @ [val])\<rparr>)\<rparr>)))"

definition step_in_notes :: "parser \<Rightarrow> ustring \<Rightarrow> error + parser" where
  "step_in_notes st stripped =
     (if startswith stripped [SQUOTE] \<or> startswith stripped [DQUOTE]
      then append_note (item_val stripped) st
      else if startswith stripped (str ''],'') \<or> stripped = str '']''
      then Inr (st\<lparr>state := STATE_IN_SUBSECTION\<rparr>)
      else Inr st)"

definition step_in_decisions :: "parser \<Rightarrow> ustring \<Rightarrow> error + parser" where
  "step_in_decisions st stripped =
     (if startswith stripped [SQUOTE] \<or> startswith stripped [DQUOTE]
      then append_decision (item_val stripped) st
      else if startswith stripped (str ''],'') \<or> stripped = str '']''
      then Inr (st\<lparr>state := STATE_IN_SUBSECTION\<rparr>)
      else Inr st)"

text \<open>The body of the loop over the lines.\<close>

definition step :: "parser \<Rightarrow> ustring \<Rightarrow> error + parser" where
  "step st line =
     (let stripped = strip line in
      case state st of
        STATE_ROOT \<Rightarrow> step_root st line
      | STATE_IN_SECTIONS_ARRAY \<Rightarrow> step_in_sections_array st stripped
      | STATE_IN_SECTION \<Rightarrow> step_in_section st stripped
      | STATE_IN_SUBSECTIONS_ARRAY \<Rightarrow> step_in_subsections_array st stripped
      | STATE_IN_SUBSECTION \<Rightarrow> step_in_subsection st line stripped
      | STATE_IN_CONTENT \<Rightarrow> step_in_content st line stripped
      | STATE_IN_CODE \<Rightarrow> step_in_code st line stripped
      | STATE_IN_NOTES \<Rightarrow> step_in_notes st stripped
      | STATE_IN_DECISIONS \<Rightarrow> step_in_decisions st stripped)"

text \<open>The loop: an error raised at a line ends the run.\<close>

fun run :: "parser \<Rightarrow> ustring list \<Rightarrow> error + parser" where
  "run st [] = Inr st"
| "run st (line # ls) = (case step st line of Inl e \<Rightarrow> Inl e | Inr st' \<Rightarrow> run st' ls)"

definition init :: parser where
  "init = \<lparr>state = STATE_ROOT, buffer = [], current_section = None,
           current_subsection = None, sections = []\<rparr>"

definition parse_ts_file :: "ustring \<Rightarrow> error + Section list" where
  "parse_ts_file content =
     (case run init (str_split NEWLINE content) of
        Inl e \<Rightarrow> Inl e
      | Inr st \<Rightarrow> Inr (sections st))"

section \<open>The document renderer: \<^verbatim>\<open>generate_markdown\<close>\<close>

text \<open>The two characters the renderer looks for in a code field:
  U+250C and U+2502.\<close>

definition BOX_DOWN_RIGHT :: uchar where "BOX_DOWN_RIGHT = 0x250C"
definition BOX_VERTICAL :: uchar where "BOX_VERTICAL = 0x2502"

definition looks_like_diagram :: "ustring \<Rightarrow> bool" where
  "looks_like_diagram code \<longleftrightarrow>
     str_contains code [BOX_DOWN_RIGHT] \<or> str_contains code [BOX_VERTICAL]"

text \<open>
  The renderer threads the list \<^verbatim>\<open>md\<close> through its appends. The assignment
  \<^verbatim>\<open>md[-1] = ...\<close> replaces the last element of a list that has just been appended to.
\<close>

definition render_code :: "ustring list \<Rightarrow> ustring \<Rightarrow> ustring list" where
  "render_code md code =
     (if code = [] then md
      else
        (let md1 = md @ [str ''```typescript''];
             md2 = (if looks_like_diagram code then md1 @ [[]]
                    else if str_contains code (str ''interface '') \<or>
                            str_contains code (str ''type '') then md1
                    else md1);
             md3 = (if looks_like_diagram code
                    then md2[length md2 - 1 := str ''```text'']
                    else md2)
         in md3 @ [strip code] @ [str ''```'' @ [NEWLINE]]))"

definition render_content :: "ustring list \<Rightarrow> ustring \<Rightarrow> ustring list" where
  "render_content md content =
     (if content = [] then md else md @ [strip content @ [NEWLINE]])"

definition render_decisions :: "ustring list \<Rightarrow> ustring list \<Rightarrow> ustring list" where
  "render_decisions md decisions =
     (if decisions = [] then md
      else foldl (\<lambda>m d. m @ [str ''- '' @ d]) (md @ [str ''### Decisions'']) decisions @ [[]])"

definition render_notes :: "ustring list \<Rightarrow> ustring list \<Rightarrow> ustring list" where
  "render_notes md notes =
     (if notes = [] then md
      else foldl (\<lambda>m n. m @ [str ''- '' @ n]) (md @ [str ''### Notes'']) notes @ [[]])"

text \<open>\<^verbatim>\<open>d.get(key, default)\<close> on an optional field.\<close>

definition get_or :: "'a option \<Rightarrow> 'a \<Rightarrow> 'a" where
  "get_or v d = (case v of None \<Rightarrow> d | Some x \<Rightarrow> x)"

definition render_subsection :: "ustring list \<Rightarrow> Subsection \<Rightarrow> ustring list" where
  "render_subsection md sub =
     (let md1 = md @ [str ''## '' @ get_or (sub_title sub) (str ''Unknown'')];
          md2 = md1 @ [str ''<!-- id: '' @ get_or (sub_id sub) [] @ str '' -->'' @ [NEWLINE]];
          md3 = render_content md2 (get_or (sub_content sub) []);
          md4 = render_code md3 (get_or (sub_code sub) []);
          md5 = render_decisions md4 (get_or (sub_decisions sub) [])
      in render_notes md5 (get_or (sub_notes sub) []))"

definition render_section :: "ustring list \<Rightarrow> Section \<Rightarrow> ustring list" where
  "render_section md sec =
     (let title = get_or (sec_title sec) (str ''Unknown'');
          icon = get_or (sec_icon sec) [];
          md1 = md @ [str ''# '' @ icon @ str '' '' @ title];
          md2 = md1 @ [str ''<!-- id: '' @ get_or (sec_id sec) [] @ str '' -->'' @ [NEWLINE]]
      in foldl render_subsection md2 (sec_subsections sec))"

definition markdown_lines :: "Section list \<Rightarrow> ustring list" where
  "markdown_lines secs = foldl render_section [] secs"

definition generate_markdown :: "Section list \<Rightarrow> ustring" where
  "generate_markdown secs = str_join [NEWLINE] (markdown_lines secs)"

text \<open>Extraction followed by rendering, as the entry point composes them.\<close>

definition extract_and_render :: "ustring \<Rightarrow> error + ustring" where
  "extract_and_render content =
     (case parse_ts_file content of
        Inl e \<Rightarrow> Inl e
      | Inr secs \<Rightarrow> Inr (generate_markdown secs))"

section \<open>The entry point\<close>

text \<open>
  The file system the entry point works on: a map from paths to files and directories.
  A file holds its text (the UTF-8 codec of \<^verbatim>\<open>open\<close> is not modelled), and
  permissions are not modelled. Every operation returns the file system it leaves.
\<close>

type_synonym path = ustring

datatype node = File ustring | Dir

type_synonym filesystem = "path \<Rightarrow> node option"

definition SLASH :: uchar where "SLASH = 0x2F"

definition source_file :: path where
  "source_file = str ''src/spec/sections.ts''"

definition target_file :: path where
  "target_file = str ''src/spec/docs/en.md''"

text \<open>\<^verbatim>\<open>open(p, 'r').read()\<close>\<close>

definition read_file :: "filesystem \<Rightarrow> path \<Rightarrow> error + ustring" where
  "read_file fs p =
     (case fs p of
        None \<Rightarrow> Inl FileNotFoundError
      | Some Dir \<Rightarrow> Inl IsADirectoryError
      | Some (File data) \<Rightarrow> Inr data)"

text \<open>\<^verbatim>\<open>os.path.dirname\<close>: the path up to its last slash, without the trailing slashes
  unless it consists of slashes only.\<close>

definition dirname :: "path \<Rightarrow> path" where
  "dirname p =
     (let head = rev (dropWhile (\<lambda>c. c \<noteq> SLASH) (rev p)) in
      if head \<noteq> [] \<and> \<not> list_all (\<lambda>c. c = SLASH) head then rstrip_char SLASH head else head)"

text \<open>
  \<^verbatim>\<open>os.makedirs(name, exist_ok=True)\<close> visits the ancestors of \<open>name\<close> from the top
  and \<open>name\<close> itself: a missing one is created, a directory is kept, a file in the
  way is an error.
\<close>

fun prefixes_of :: "ustring list \<Rightarrow> ustring list list" where
  "prefixes_of [] = []"
| "prefixes_of (c # cs) = [c] # map ((#) c) (prefixes_of cs)"

definition ancestors :: "path \<Rightarrow> path list" where
  "ancestors p = map (str_join [SLASH]) (prefixes_of (str_split SLASH p))"

fun mkdirs :: "filesystem \<Rightarrow> path list \<Rightarrow> error option \<times> filesystem" where
  "mkdirs fs [] = (None, fs)"
| "mkdirs fs (d # ds) =
     (case fs d of
        None \<Rightarrow> mkdirs (fs(d \<mapsto> Dir)) ds
      | Some Dir \<Rightarrow> mkdirs fs ds
      | Some (File data) \<Rightarrow>
          (Some (if ds = [] then FileExistsError else NotADirectoryError), fs))"

definition makedirs :: "filesystem \<Rightarrow> path \<Rightarrow> error option \<times> filesystem" where
  "makedirs fs name = mkdirs fs (ancestors name)"

text \<open>\<^verbatim>\<open>open(p, 'w').write(data)\<close>: the directory of \<open>p\<close> has to exist, and \<open>p\<close>
  must not be a directory; what \<open>p\<close> held is replaced.\<close>

definition write_file :: "filesystem \<Rightarrow> path \<Rightarrow> ustring \<Rightarrow> error + filesystem" where
  "write_file fs p data =
     (case fs (dirname p) of
        None \<Rightarrow> Inl FileNotFoundError
      | Some (File other) \<Rightarrow> Inl NotADirectoryError
      | Some Dir \<Rightarrow>
          (case fs p of
             Some Dir \<Rightarrow> Inl IsADirectoryError
           | _ \<Rightarrow> Inr (fs(p \<mapsto> File data))))"

text \<open>
  The entry point reads the source file, extracts, renders, creates the directory of the
  target and writes the target, in this order; an error ends the run where it occurs. The
  result is the number of sections that the final \<^verbatim>\<open>print\<close> reports. The extractor
  and the renderer are parameters of \<open>main_with\<close>, so that a run in which one of them
  fails can be stated; \<open>main\<close> is the entry point of the source.
\<close>

definition main_with ::
  "(ustring \<Rightarrow> error + Section list) \<Rightarrow> (Section list \<Rightarrow> error + ustring) \<Rightarrow>
   filesystem \<Rightarrow> (error + nat) \<times> filesystem" where
  "main_with parse render fs =
     (case read_file fs source_file of
        Inl e \<Rightarrow> (Inl e, fs)
      | Inr content \<Rightarrow>
          (case parse content of
             Inl e \<Rightarrow> (Inl e, fs)
           | Inr secs \<Rightarrow>
               (case render secs of
                  Inl e \<Rightarrow> (Inl e, fs)
                | Inr md_content \<Rightarrow>
                    (case makedirs fs (dirname target_file) of
                       (Some e, fs1) \<Rightarrow> (Inl e, fs1)
                     | (None, fs1) \<Rightarrow>
                         (case write_file fs1 target_file md_content of
                            Inl e \<Rightarrow> (Inl e, fs1)
                          | Inr fs2 \<Rightarrow> (Inr (length secs), fs2))))))"

definition main :: "filesystem \<Rightarrow> (error + nat) \<times> filesystem" where
  "main = main_with parse_ts_file (\<lambda>secs. Inr (generate_markdown secs))"

text \<open>The directories that \<^verbatim>\<open>makedirs\<close> visits for the target file.\<close>

definition docs_dirs :: "path list" where
  "docs_dirs = [str ''src'', str ''src/spec'', str ''src/spec/docs'']"

section \<open>The blocks of the rendered document\<close>

text \<open>
  What the renderer emits for a subsection, block by block, each block as a function of
  the one field it renders. These definitions do not mention the list \<^verbatim>\<open>md\<close>; the
  renderer is proved below to append them in a fixed order.
\<close>

definition sub_heading :: "Subsection \<Rightarrow> ustring list" where
  "sub_heading sub =
     [str ''## '' @ get_or (sub_title sub) (str ''Unknown''),
      str ''<!-- id: '' @ get_or (sub_id sub) [] @ str '' -->'' @ [NEWLINE]]"

definition sec_heading :: "Section \<Rightarrow> ustring list" where
  "sec_heading sec =
     [str ''# '' @ get_or (sec_icon sec) [] @ str '' '' @ get_or (sec_title sec) (str ''Unknown''),
      str ''<!-- id: '' @ get_or (sec_id sec) [] @ str '' -->'' @ [NEWLINE]]"

definition content_block :: "ustring option \<Rightarrow> ustring list" where
  "content_block c =
     (case c of
        None \<Rightarrow> []
      | Some t \<Rightarrow> if t = [] then [] else [strip t @ [NEWLINE]])"

definition code_block :: "ustring option \<Rightarrow> ustring list" where
  "code_block c =
     (case c of
        None \<Rightarrow> []
      | Some t \<Rightarrow>
          if t = [] then []
          else if looks_like_diagram t
          then [str ''```typescript'', str ''```text'', strip t, str ''```'' @ [NEWLINE]]
          else [str ''```typescript'', strip t, str ''```'' @ [NEWLINE]])"

definition bullets :: "ustring \<Rightarrow> ustring list option \<Rightarrow> ustring list" where
  "bullets heading items =
     (case items of
        None \<Rightarrow> []
      | Some xs \<Rightarrow>
          if xs = [] then [] else heading # map (\<lambda>x. str ''- '' @ x) xs @ [[]])"

definition subsection_lines :: "Subsection \<Rightarrow> ustring list" where
  "subsection_lines sub =
     sub_heading sub @ content_block (sub_content sub) @ code_block (sub_code sub) @
     bullets (str ''### Decisions'') (sub_decisions sub) @
     bullets (str ''### Notes'') (sub_notes sub)"

definition section_lines :: "Section \<Rightarrow> ustring list" where
  "section_lines sec = sec_heading sec @ concat (map subsection_lines (sec_subsections sec))"

section \<open>Concrete inputs\<close>

text \<open>The scenario of the specification: one section holding one subsection with a
  two-line content field and two notes. The icon is U+1F4D8.\<close>

definition scenario_lines :: "ustring list" where
  "scenario_lines =
    [str ''export const specSections = ['',
     str ''  {'',
     str ''    id: \"intro\",'',
     str ''    title: \"Introduction\",'',
     str ''    icon: \"'' @ [0x1F4D8] @ str ''\",'',
     str ''    subsections: ['',
     str ''      {'',
     str ''        id: \"overview\",'',
     str ''        title: \"Overview\",'',
     str ''        content: `Hello'',
     str ''World`,'',
     str ''        notes: ['',
     str ''          \"note one\",'',
     str ''          \"note two\",'',
     str ''        ],'',
     str ''      },'',
     str ''    ],'',
     str ''  },'',
     str ''];'']"

definition scenario_input :: ustring where
  "scenario_input = str_join [NEWLINE] scenario_lines"

definition scenario_tree :: "Section list" where
  "scenario_tree =
     [\<lparr>sec_id = Some (str ''intro''), sec_title = Some (str ''Introduction''),
       sec_icon = Some [0x1F4D8],
       sec_subsections =
         [\<lparr>sub_id = Some (str ''overview''), sub_title = Some (str ''Overview''),
           sub_content = Some (str ''Hello'' @ [NEWLINE] @ str ''World''),
           sub_code = None,
           sub_notes = Some [str ''note one'', str ''note two''],
           sub_decisions = None\<rparr>]\<rparr>]"

definition scenario_output :: "ustring list" where
  "scenario_output =
     [str ''# '' @ [0x1F4D8] @ str '' Introduction'',
      str ''<!-- id: intro -->'',
      [],
      str ''## Overview'',
      str ''<!-- id: overview -->'',
      [],
      str ''Hello'',
      str ''World'',
      [],
      str ''### Notes'',
      str ''- note one'',
      str ''- note two'',
      []]"

text \<open>The same scenario with the fields of the subsection written in another order:
  the notes, then the content, the title and the id.\<close>

definition scenario_reordered_lines :: "ustring list" where
  "scenario_reordered_lines =
    [str ''export const specSections = ['',
     str ''  {'',
     str ''    id: \"intro\",'',
     str ''    title: \"Introduction\",'',
     str ''    icon: \"'' @ [0x1F4D8] @ str ''\",'',
     str ''    subsections: ['',
     str ''      {'',
     str ''        notes: ['',
     str ''          \"note one\",'',
     str ''          \"note two\",'',
     str ''        ],'',
     str ''        content: `Hello'',
     str ''World`,'',
     str ''        title: \"Overview\",'',
     str ''        id: \"overview\",'',
     str ''      },'',
     str ''    ],'',
     str ''  },'',
     str ''];'']"

text \<open>A subsection holding only a code field, a diagram drawn with U+250C, U+2500
  and U+2510.\<close>

definition diagram_lines :: "ustring list" where
  "diagram_lines =
    [str ''export const specSections = ['',
     str ''{'',
     str ''subsections: ['',
     str ''{'',
     str ''code: `'' @ [0x250C, 0x2500, 0x2510] @ str ''`,'',
     str ''}'',
     str '']'',
     str ''}'',
     str ''];'']"

definition diagram_output :: "ustring list" where
  "diagram_output =
     [str ''#  Unknown'',
      str ''<!-- id:  -->'',
      [],
      str ''## Unknown'',
      str ''<!-- id:  -->'',
      [],
      str ''```typescript'',
      str ''```text'',
      [0x250C, 0x2500, 0x2510],
      str ''```'',
      []]"

text \<open>A file system holding the scenario as the source file and nothing else, and
  the file system after a run on it.\<close>

definition fs_scenario :: filesystem where
  "fs_scenario = (\<lambda>p. None)(source_file \<mapsto> File scenario_input)"

definition fs_rendered :: filesystem where
  "fs_rendered =
     fs_scenario(str ''src'' \<mapsto> Dir, str ''src/spec'' \<mapsto> Dir, str ''src/spec/docs'' \<mapsto> Dir,
       target_file \<mapsto> File (str_join [NEWLINE] scenario_output))"

section \<open>Properties of the extractor, stated\<close>

text \<open>
  The invariant of the loop: in a state inside a section there is a current section, in
  a state inside a subsection there is a current subsection, and in the two list states
  the list being filled exists.
\<close>

definition parser_inv :: "parser \<Rightarrow> bool" where
  "parser_inv st =
     (case state st of
        STATE_ROOT \<Rightarrow> True
      | STATE_IN_SECTIONS_ARRAY \<Rightarrow> True
      | STATE_IN_SECTION \<Rightarrow> current_section st \<noteq> None
      | STATE_IN_SUBSECTIONS_ARRAY \<Rightarrow> current_section st \<noteq> None
      | STATE_IN_SUBSECTION \<Rightarrow> current_section st \<noteq> None \<and> current_subsection st \<noteq> None
      | STATE_IN_CONTENT \<Rightarrow> current_section st \<noteq> None \<and> current_subsection st \<noteq> None
      | STATE_IN_CODE \<Rightarrow> current_section st \<noteq> None \<and> current_subsection st \<noteq> None
      | STATE_IN_NOTES \<Rightarrow>
          current_section st \<noteq> None \<and>
          (case current_subsection st of None \<Rightarrow> False | Some sub \<Rightarrow> sub_notes sub \<noteq> None)
      | STATE_IN_DECISIONS \<Rightarrow>
          current_section st \<noteq> None \<and>
          (case current_subsection st of None \<Rightarrow> False | Some sub \<Rightarrow> sub_decisions sub \<noteq> None))"

text \<open>The lines a state reacts to, read off the tests of its branch; every other line
  falls through the branch.\<close>

definition recognized :: "pstate \<Rightarrow> ustring \<Rightarrow> bool" where
  "recognized s line =
     (let stripped = strip line in
      case s of
        STATE_ROOT \<Rightarrow> str_contains line (str ''export const specSections'')
      | STATE_IN_SECTIONS_ARRAY \<Rightarrow> stripped = str ''{'' \<or> stripped = str ''];''
      | STATE_IN_SECTION \<Rightarrow>
          startswith stripped (str ''id:'') \<or> startswith stripped (str ''title:'') \<or>
          startswith stripped (str ''icon:'') \<or> startswith stripped (str ''subsections: ['') \<or>
          stripped = str ''},'' \<or> stripped = str ''}''
      | STATE_IN_SUBSECTIONS_ARRAY \<Rightarrow>
          stripped = str ''{'' \<or> stripped = str ''],'' \<or> stripped = str '']''
      | STATE_IN_SUBSECTION \<Rightarrow>
          startswith stripped (str ''id:'') \<or> startswith stripped (str ''title:'') \<or>
          startswith stripped (str ''content: `'') \<or> startswith stripped (str ''code: `'') \<or>
          startswith stripped (str ''notes: ['') \<or> startswith stripped (str ''decisions: ['') \<or>
          stripped = str ''},'' \<or> stripped = str ''}''
      | STATE_IN_CONTENT \<Rightarrow> True
      | STATE_IN_CODE \<Rightarrow> True
      | STATE_IN_NOTES \<Rightarrow>
          startswith stripped [SQUOTE] \<or> startswith stripped [DQUOTE] \<or>
          startswith stripped (str ''],'') \<or> stripped = str '']''
      | STATE_IN_DECISIONS \<Rightarrow>
          startswith stripped [SQUOTE] \<or> startswith stripped [DQUOTE] \<or>
          startswith stripped (str ''],'') \<or> stripped = str '']'')"

text \<open>A line that starts with one of the field markers of the format, and the states
  whose branch tests for none of them.\<close>

definition field_marker :: "ustring \<Rightarrow> bool" where
  "field_marker stripped \<longleftrightarrow>
     startswith stripped (str ''id:'') \<or> startswith stripped (str ''title:'') \<or>
     startswith stripped (str ''icon:'') \<or> startswith stripped (str ''subsections: ['') \<or>
     startswith stripped (str ''content: `'') \<or> startswith stripped (str ''code: `'') \<or>
     startswith stripped (str ''notes: ['') \<or> startswith stripped (str ''decisions: ['')"

definition expects_no_field :: "pstate \<Rightarrow> bool" where
  "expects_no_field s \<longleftrightarrow>
     s = STATE_IN_SECTIONS_ARRAY \<or> s = STATE_IN_SUBSECTIONS_ARRAY \<or> s = STATE_IN_NOTES \<or>
     s = STATE_IN_DECISIONS"

text \<open>The closing line as the specification words it: the stripped line is the
  backtick, or ends with the backtick, or ends with the backtick and a comma.\<close>

definition claimed_closing_line :: "ustring \<Rightarrow> bool" where
  "claimed_closing_line stripped \<longleftrightarrow>
     stripped = [BACKTICK] \<or> endswith stripped [BACKTICK] \<or>
     endswith stripped [BACKTICK, COMMA]"

text \<open>The buffer once the closing line has been seen.\<close>

definition closed_buffer :: "parser \<Rightarrow> ustring \<Rightarrow> ustring list" where
  "closed_buffer st line =
     (if closing_val line = [] then buffer st else buffer st @ [closing_val line])"

text \<open>A state in the middle of a buffered capture, one fragment read.\<close>

definition capturing :: parser where
  "capturing =
     \<lparr>state = STATE_IN_CONTENT, buffer = [str ''first''],
      current_section = Some new_section, current_subsection = Some empty_subsection,
      sections = []\<rparr>"

section \<open>Declaration order, stated\<close>

text \<open>
  A section is open from the line that opens it to the line that closes it, and so is a
  subsection. The parser holds one current section and one current subsection, so at
  most one of each is open at a time.
\<close>

definition section_open :: "pstate \<Rightarrow> bool" where
  "section_open s \<longleftrightarrow> s \<noteq> STATE_ROOT \<and> s \<noteq> STATE_IN_SECTIONS_ARRAY"

definition subsection_open :: "pstate \<Rightarrow> bool" where
  "subsection_open s \<longleftrightarrow>
     s = STATE_IN_SUBSECTION \<or> s = STATE_IN_CONTENT \<or> s = STATE_IN_CODE \<or>
     s = STATE_IN_NOTES \<or> s = STATE_IN_DECISIONS"

text \<open>The lines that open a section or a subsection: the opening brace read in the
  state of the enclosing array.\<close>

definition opens_section :: "parser \<Rightarrow> ustring \<Rightarrow> bool" where
  "opens_section st line \<longleftrightarrow> state st = STATE_IN_SECTIONS_ARRAY \<and> strip line = str ''{''"

definition opens_subsection :: "parser \<Rightarrow> ustring \<Rightarrow> bool" where
  "opens_subsection st line \<longleftrightarrow>
     state st = STATE_IN_SUBSECTIONS_ARRAY \<and> strip line = str ''{''"

text \<open>The number of sections, and of subsections, opened while the lines are read.\<close>

fun section_openings :: "parser \<Rightarrow> ustring list \<Rightarrow> nat" where
  "section_openings st [] = 0"
| "section_openings st (line # ls) =
     (if opens_section st line then 1 else 0) +
     (case step st line of Inl e \<Rightarrow> 0 | Inr st' \<Rightarrow> section_openings st' ls)"

fun subsection_openings :: "parser \<Rightarrow> ustring list \<Rightarrow> nat" where
  "subsection_openings st [] = 0"
| "subsection_openings st (line # ls) =
     (if opens_subsection st line then 1 else 0) +
     (case step st line of Inl e \<Rightarrow> 0 | Inr st' \<Rightarrow> subsection_openings st' ls)"

text \<open>The sections listed so far plus the one that is open, and the same count for
  subsections: those of the listed sections, those of the open section, and the open
  subsection.\<close>

definition sections_listed_or_open :: "parser \<Rightarrow> nat" where
  "sections_listed_or_open st =
     length (sections st) + (if section_open (state st) then 1 else 0)"

definition subsections_listed_or_open :: "parser \<Rightarrow> nat" where
  "subsections_listed_or_open st =
     sum_list (map (\<lambda>sec. length (sec_subsections sec)) (sections st)) +
     (if section_open (state st)
      then (case current_section st of None \<Rightarrow> 0 | Some sec \<Rightarrow> length (sec_subsections sec))
      else 0) +
     (if subsection_open (state st) then 1 else 0)"

text \<open>An input with two sections, the first with two subsections, cut after the
  line that closes the first section; and the parser states along its run.\<close>

definition two_body :: "ustring list" where
  "two_body =
    [str ''id: \"a\",'',
     str ''subsections: ['',
     str ''{'',
     str ''id: \"a1\",'',
     str ''},'',
     str ''{'',
     str ''id: \"a2\",'',
     str ''},'',
     str ''],'']"

definition two_head :: "ustring list" where
  "two_head = [str ''export const specSections = ['', str ''{''] @ two_body @ [str ''},'']"

definition two_tail :: "ustring list" where
  "two_tail = [str ''{'', str ''id: \"b\",'', str ''},'', str ''];'']"

definition section_a :: Section where
  "section_a =
     new_section\<lparr>sec_id := Some (str ''a''),
       sec_subsections :=
         [empty_subsection\<lparr>sub_id := Some (str ''a1'')\<rparr>,
          empty_subsection\<lparr>sub_id := Some (str ''a2'')\<rparr>]\<rparr>"

definition section_b :: Section where
  "section_b = new_section\<lparr>sec_id := Some (str ''b'')\<rparr>"

definition two_opened :: parser where
  "two_opened = init\<lparr>state := STATE_IN_SECTION, current_section := Some new_section\<rparr>"

definition two_body_done :: parser where
  "two_body_done =
     init\<lparr>state := STATE_IN_SECTION, current_section := Some section_a,
       current_subsection := Some (empty_subsection\<lparr>sub_id := Some (str ''a2'')\<rparr>)\<rparr>"

definition two_head_done :: parser where
  "two_head_done = two_body_done\<lparr>state := STATE_IN_SECTIONS_ARRAY, sections := [section_a]\<rparr>"

definition two_done :: parser where
  "two_done =
     two_body_done\<lparr>state := STATE_ROOT, current_section := Some section_b,
       sections := [section_a, section_b]\<rparr>"

section \<open>Multi-line fields, stated\<close>

text \<open>
  The field captured across several lines: the fragment that follows the opening
  backtick, the lines in between, and what the closing line keeps, joined by newlines.
\<close>

definition captured_field :: "ustring \<Rightarrow> ustring list \<Rightarrow> ustring \<Rightarrow> ustring" where
  "captured_field frag middle final =
     str_join [NEWLINE]
       (frag # middle @ (if closing_val final = [] then [] else [closing_val final]))"

text \<open>The parser inside a subsection that has no field yet.\<close>

definition in_subsection :: parser where
  "in_subsection =
     init\<lparr>state := STATE_IN_SUBSECTION, current_section := Some new_section,
       current_subsection := Some empty_subsection\<rparr>"

text \<open>An input whose content field ends with an escaped backtick,
  \<^verbatim>\<open>b\`\<close> followed by the closing backtick and a comma, and the field extracted
  from it.\<close>

definition BACKSLASH :: uchar where "BACKSLASH = 0x5C"

definition fidelity_lines :: "ustring list" where
  "fidelity_lines =
    [str ''export const specSections = ['',
     str ''{'',
     str ''subsections: ['',
     str ''{'',
     str ''content: `a'',
     str ''b'' @ [BACKSLASH, BACKTICK] @ [BACKTICK, COMMA],
     str ''}'',
     str '']'',
     str ''}'',
     str ''];'']"

definition fidelity_field :: ustring where
  "fidelity_field = str ''a'' @ [NEWLINE] @ str ''b'' @ [BACKSLASH]"

section \<open>Evaluation\<close>

lemmas ev_str = str_def startswith_def endswith_def strip_def rstrip_def lstrip_def isspace_def
  rstrip_char_def strip_char_def NEWLINE_def COMMA_def BACKTICK_def SQUOTE_def DQUOTE_def
  split1_second_def rsplit1_first_def clean_str_def Let_def

lemmas ev_step = step_def step_root_def step_in_sections_array_def step_in_section_def
  step_in_subsections_array_def step_in_subsection_def step_in_content_def step_in_code_def
  step_in_notes_def step_in_decisions_def set_section_def set_subsection_def
  append_note_def append_decision_def item_val_def closing_line_def closing_val_def
  single_line_def init_def new_section_def empty_subsection_def

lemmas ev_render = generate_markdown_def markdown_lines_def render_section_def
  render_subsection_def render_content_def render_code_def render_decisions_def
  render_notes_def get_or_def looks_like_diagram_def BOX_DOWN_RIGHT_def BOX_VERTICAL_def

section \<open>The renderer appends the blocks in order\<close>

lemma foldl_append_each: "foldl (\<lambda>m x. m @ [f x]) md xs = md @ map f xs"
  by (induction xs arbitrary: md) simp_all

lemma render_content_eq: "render_content md (get_or c []) = md @ content_block c"
  by (simp add: render_content_def content_block_def get_or_def split: option.splits)

lemma render_code_eq: "render_code md (get_or c []) = md @ code_block c"
  by (simp add: render_code_def code_block_def get_or_def Let_def list_update_append
      split: option.splits)

lemma render_decisions_eq:
  "render_decisions md (get_or ds []) = md @ bullets (str ''### Decisions'') ds"
  by (simp add: render_decisions_def bullets_def get_or_def foldl_append_each
      split: option.splits)

lemma render_notes_eq:
  "render_notes md (get_or ns []) = md @ bullets (str ''### Notes'') ns"
  by (simp add: render_notes_def bullets_def get_or_def foldl_append_each
      split: option.splits)

lemma render_subsection_eq: "render_subsection md sub = md @ subsection_lines sub"
  unfolding render_subsection_def Let_def subsection_lines_def
  by (simp only: render_content_eq render_code_eq render_decisions_eq render_notes_eq
        sub_heading_def append_assoc append_Cons append_Nil)

lemma foldl_render_subsection:
  "foldl render_subsection md subs = md @ concat (map subsection_lines subs)"
  by (induction subs arbitrary: md) (simp_all add: render_subsection_eq)

lemma render_section_eq: "render_section md sec = md @ section_lines sec"
  by (simp add: render_section_def Let_def foldl_render_subsection section_lines_def
      sec_heading_def)

lemma markdown_lines_eq: "markdown_lines secs = concat (map section_lines secs)"
proof -
  have "foldl render_section md secs = md @ concat (map section_lines secs)" for md
    by (induction secs arbitrary: md) (simp_all add: render_section_eq)
  then show ?thesis by (simp add: markdown_lines_def)
qed

section \<open>The claims about the renderer\<close>

lemma reordered_split:
  "str_split NEWLINE (str_join [NEWLINE] scenario_reordered_lines) = scenario_reordered_lines"
  by (simp add: scenario_reordered_lines_def ev_str)

lemma reordered_run:
  "case run init scenario_reordered_lines of
     Inl e \<Rightarrow> False
   | Inr st \<Rightarrow> sections st = scenario_tree"
  by (simp add: scenario_reordered_lines_def scenario_tree_def ev_str ev_step)

lemma reordered_parse:
  "parse_ts_file (str_join [NEWLINE] scenario_reordered_lines) = Inr scenario_tree"
  using reordered_run by (simp add: parse_ts_file_def reordered_split split: sum.splits)

lemma scenario_tree_parse: "parse_ts_file scenario_input = Inr scenario_tree"
proof -
  have "str_split NEWLINE scenario_input = scenario_lines"
    by (simp add: scenario_input_def scenario_lines_def ev_str)
  moreover have "case run init scenario_lines of Inl e \<Rightarrow> False
                 | Inr st \<Rightarrow> sections st = scenario_tree"
    by (simp add: scenario_lines_def scenario_tree_def ev_str ev_step)
  ultimately show ?thesis by (simp add: parse_ts_file_def split: sum.splits)
qed

text \<open>
  Claim C4. Whatever the order in which the fields of a subsection were set, the
  renderer emits after the two heading lines the content block, then the code block,
  then the Decisions bullets, then the Notes bullets; a block is empty when its field is
  absent or empty. A subsection is a value that keeps no trace of the order of the
  assignments that built it, and each block is a function of its own field alone. On the
  scenario, writing the notes before the content, the title and the id in the source
  gives the same document.
\<close>

theorem render_order_fixed:
  "render_subsection md sub =
     md @ sub_heading sub @ content_block (sub_content sub) @ code_block (sub_code sub) @
     bullets (str ''### Decisions'') (sub_decisions sub) @
     bullets (str ''### Notes'') (sub_notes sub) \<and>
   extract_and_render (str_join [NEWLINE] scenario_reordered_lines) =
     extract_and_render scenario_input"
  by (simp add: render_subsection_eq subsection_lines_def extract_and_render_def
      reordered_parse scenario_tree_parse)

text \<open>
  Claim C10. A section or subsection without a title is rendered under the heading
  text "Unknown", one without an id gets the metadata comment with an empty id, and a
  subsection whose content, code, notes or decisions field is absent gets no block for
  that field. The renderer has no failing branch: it is a total function of the tree.
\<close>

theorem missing_fields_defaults:
  "(sec_title sec = None \<longrightarrow>
      (\<exists>idline rest. render_section md sec =
         md @ [str ''# '' @ get_or (sec_icon sec) [] @ str '' Unknown'', idline] @ rest)) \<and>
   (sec_id sec = None \<longrightarrow>
      (\<exists>heading rest. render_section md sec =
         md @ [heading, str ''<!-- id:  -->'' @ [NEWLINE]] @ rest)) \<and>
   (sub_title sub = None \<longrightarrow>
      (\<exists>idline rest. render_subsection md sub = md @ [str ''## Unknown'', idline] @ rest)) \<and>
   (sub_id sub = None \<longrightarrow>
      (\<exists>heading rest. render_subsection md sub =
         md @ [heading, str ''<!-- id:  -->'' @ [NEWLINE]] @ rest)) \<and>
   (sub_content sub = None \<longrightarrow>
      render_subsection md sub =
        md @ sub_heading sub @ code_block (sub_code sub) @
        bullets (str ''### Decisions'') (sub_decisions sub) @
        bullets (str ''### Notes'') (sub_notes sub)) \<and>
   (sub_code sub = None \<longrightarrow>
      render_subsection md sub =
        md @ sub_heading sub @ content_block (sub_content sub) @
        bullets (str ''### Decisions'') (sub_decisions sub) @
        bullets (str ''### Notes'') (sub_notes sub)) \<and>
   (sub_decisions sub = None \<longrightarrow>
      render_subsection md sub =
        md @ sub_heading sub @ content_block (sub_content sub) @ code_block (sub_code sub) @
        bullets (str ''### Notes'') (sub_notes sub)) \<and>
   (sub_notes sub = None \<longrightarrow>
      render_subsection md sub =
        md @ sub_heading sub @ content_block (sub_content sub) @ code_block (sub_code sub) @
        bullets (str ''### Decisions'') (sub_decisions sub)) \<and>
   (sub_content sub = None \<and> sub_code sub = None \<and> sub_decisions sub = None \<and>
    sub_notes sub = None \<longrightarrow>
      render_subsection md sub = md @ sub_heading sub)"
proof -
  have sec: "render_section md sec =
      md @ [str ''# '' @ get_or (sec_icon sec) [] @ str '' '' @
              get_or (sec_title sec) (str ''Unknown''),
            str ''<!-- id: '' @ get_or (sec_id sec) [] @ str '' -->'' @ [NEWLINE]] @
      concat (map subsection_lines (sec_subsections sec))"
    by (simp add: render_section_eq section_lines_def sec_heading_def)
  have sub: "render_subsection md sub =
      md @ [str ''## '' @ get_or (sub_title sub) (str ''Unknown''),
            str ''<!-- id: '' @ get_or (sub_id sub) [] @ str '' -->'' @ [NEWLINE]] @
      (content_block (sub_content sub) @ code_block (sub_code sub) @
       bullets (str ''### Decisions'') (sub_decisions sub) @
       bullets (str ''### Notes'') (sub_notes sub))"
    by (simp add: render_subsection_eq subsection_lines_def sub_heading_def)
  have unknown: "str ''# '' @ i @ str '' '' @ str ''Unknown'' = str ''# '' @ i @ str '' Unknown''"
    for i by (simp add: str_def)
  have sub_unknown: "str ''## '' @ str ''Unknown'' = str ''## Unknown''"
    by (simp add: str_def)
  have empty_id: "str ''<!-- id: '' @ [] @ str '' -->'' @ [NEWLINE] = str ''<!-- id:  -->'' @ [NEWLINE]"
    by (simp add: str_def)
  have 1: "sec_title sec = None \<longrightarrow>
      (\<exists>idline rest. render_section md sec =
         md @ [str ''# '' @ get_or (sec_icon sec) [] @ str '' Unknown'', idline] @ rest)"
    using sec unknown by (auto simp: get_or_def)
  have 2: "sec_id sec = None \<longrightarrow>
      (\<exists>heading rest. render_section md sec =
         md @ [heading, str ''<!-- id:  -->'' @ [NEWLINE]] @ rest)"
    using sec empty_id by (auto simp: get_or_def)
  have 3: "sub_title sub = None \<longrightarrow>
      (\<exists>idline rest. render_subsection md sub = md @ [str ''## Unknown'', idline] @ rest)"
    using sub sub_unknown by (auto simp: get_or_def)
  have 4: "sub_id sub = None \<longrightarrow>
      (\<exists>heading rest. render_subsection md sub =
         md @ [heading, str ''<!-- id:  -->'' @ [NEWLINE]] @ rest)"
    using sub empty_id by (auto simp: get_or_def)
  show ?thesis
    using 1 2 3 4
    by (simp add: render_subsection_eq subsection_lines_def content_block_def code_block_def
        bullets_def)
qed

theorem missing_fields_witness:
  "sec_title new_section = None \<and> sec_id new_section = None \<and>
   sub_title empty_subsection = None \<and> sub_id empty_subsection = None \<and>
   sub_content empty_subsection = None \<and> sub_code empty_subsection = None \<and>
   sub_decisions empty_subsection = None \<and> sub_notes empty_subsection = None \<and>
   render_subsection [] empty_subsection =
     [str ''## Unknown'', str ''<!-- id:  -->'' @ [NEWLINE]] \<and>
   render_section [] new_section = [str ''#  Unknown'', str ''<!-- id:  -->'' @ [NEWLINE]]"
  using missing_fields_defaults [of new_section "[]" empty_subsection]
  by (simp add: new_section_def empty_subsection_def ev_render str_def)

section \<open>The claims about concrete inputs\<close>

lemma scenario_split: "str_split NEWLINE scenario_input = scenario_lines"
  by (simp add: scenario_input_def scenario_lines_def ev_str)

lemma scenario_run:
  "run init scenario_lines =
     Inr \<lparr>state = STATE_ROOT, buffer = [str ''Hello'', str ''World''],
          current_section = Some (hd scenario_tree),
          current_subsection = Some (hd (sec_subsections (hd scenario_tree))),
          sections = scenario_tree\<rparr>"
  by (simp add: scenario_lines_def scenario_tree_def ev_str ev_step)

lemma scenario_parse: "parse_ts_file scenario_input = Inr scenario_tree"
  by (simp add: parse_ts_file_def scenario_split scenario_run)

lemma scenario_render: "generate_markdown scenario_tree = str_join [NEWLINE] scenario_output"
  by (simp add: scenario_tree_def scenario_output_def ev_str ev_render)

text \<open>
  Claim C3. The input with one section (id "intro", title "Introduction", icon U+1F4D8)
  holding one subsection (id "overview", title "Overview", the content "Hello",
  newline, "World", and the notes "note one" and "note two") is extracted to that tree
  and rendered to the lines of \<open>scenario_output\<close>: the top heading with its id comment,
  the second-level heading with its id comment, the prose on two lines, the "Notes"
  subheading and the two bullets, with one blank line after each block.
\<close>

theorem scenario_renders:
  "parse_ts_file scenario_input = Inr scenario_tree \<and>
   extract_and_render scenario_input = Inr (str_join [NEWLINE] scenario_output)"
  by (simp add: extract_and_render_def scenario_parse scenario_render)

lemma diagram_split: "str_split NEWLINE (str_join [NEWLINE] diagram_lines) = diagram_lines"
  by (simp add: diagram_lines_def ev_str)

lemma diagram_run:
  "case run init diagram_lines of
     Inl e \<Rightarrow> False
   | Inr st \<Rightarrow>
       sections st =
         [new_section\<lparr>sec_subsections :=
            [empty_subsection\<lparr>sub_code := Some [0x250C, 0x2500, 0x2510]\<rparr>]\<rparr>]"
  by (simp add: diagram_lines_def ev_str ev_step)

lemma diagram_render:
  "generate_markdown
     [new_section\<lparr>sec_subsections :=
        [empty_subsection\<lparr>sub_code := Some [0x250C, 0x2500, 0x2510]\<rparr>]\<rparr>] =
   str_join [NEWLINE] diagram_output"
  by (simp add: diagram_output_def new_section_def empty_subsection_def ev_str ev_render)

text \<open>
  Claim C2, evaluated on a diagram. For a subsection whose code field holds U+250C,
  U+2500, U+2510 the renderer emits the line that opens the fence with the tag
  \<^verbatim>\<open>typescript\<close> and, as the first line inside the fence, the text meant to
  replace it: the assignment to the last element of the list overwrites the empty
  string appended just before, not the fence line.
\<close>

theorem diagram_fence_is_typescript:
  "extract_and_render (str_join [NEWLINE] diagram_lines) =
     Inr (str_join [NEWLINE] diagram_output)"
  using diagram_run
  by (simp add: extract_and_render_def parse_ts_file_def diagram_split diagram_render
      split: sum.splits)

section \<open>Facts about the string operations\<close>

lemma startswith_iff: "startswith s p \<longleftrightarrow> (\<exists>b. s = p @ b)"
  unfolding startswith_def
  by (metis append_eq_conv_conj append_take_drop_id)

lemma endswith_iff: "endswith s p \<longleftrightarrow> (\<exists>a. s = a @ p)"
proof
  assume "endswith s p"
  then have "s = take (length s - length p) s @ p"
    unfolding endswith_def by (metis append_take_drop_id)
  then show "\<exists>a. s = a @ p" ..
next
  assume "\<exists>a. s = a @ p"
  then show "endswith s p" by (auto simp: endswith_def)
qed

lemma str_contains_iff: "str_contains s p \<longleftrightarrow> (\<exists>a b. s = a @ p @ b)"
proof (induction s)
  case Nil
  then show ?case by auto
next
  case (Cons x xs)
  show ?case
  proof
    assume "str_contains (x # xs) p"
    then consider "startswith (x # xs) p" | "str_contains xs p" by auto
    then show "\<exists>a b. x # xs = a @ p @ b"
    proof cases
      case 1
      then obtain b where "x # xs = [] @ p @ b" by (auto simp: startswith_iff)
      then show ?thesis by blast
    next
      case 2
      then obtain a b where "xs = a @ p @ b" using Cons.IH by auto
      then have "x # xs = (x # a) @ p @ b" by simp
      then show ?thesis by blast
    qed
  next
    assume "\<exists>a b. x # xs = a @ p @ b"
    then obtain a b where ab: "x # xs = a @ p @ b" by auto
    show "str_contains (x # xs) p"
    proof (cases a)
      case Nil
      then have "startswith (x # xs) p" using ab unfolding startswith_iff by auto
      then show ?thesis by simp
    next
      case (Cons y ys)
      then have "xs = ys @ p @ b" using ab by simp
      then show ?thesis using Cons.IH by auto
    qed
  qed
qed

lemma after_first_Some:
  "sep \<noteq> [] \<Longrightarrow> str_contains s sep \<Longrightarrow> \<exists>r. after_first sep s = Some r"
  by (induction s) auto

lemma split1_second_ok:
  "sep \<noteq> [] \<Longrightarrow> str_contains s sep \<Longrightarrow> \<exists>v. split1_second s sep = Inr v"
  by (auto simp: split1_second_def dest: after_first_Some)

lemma rstrip_decomp: "\<exists>b. s = rstrip s @ b \<and> (\<forall>c\<in>set b. isspace c)"
proof -
  have "rev s = takeWhile isspace (rev s) @ dropWhile isspace (rev s)" by simp
  then have "s = rev (dropWhile isspace (rev s)) @ rev (takeWhile isspace (rev s))"
    by (metis rev_append rev_rev_ident)
  moreover have "\<forall>c\<in>set (rev (takeWhile isspace (rev s))). isspace c"
    by (auto dest: set_takeWhileD)
  ultimately show ?thesis unfolding rstrip_def by blast
qed

lemma lstrip_decomp: "\<exists>a. s = a @ lstrip s \<and> (\<forall>c\<in>set a. isspace c)"
proof -
  have "s = takeWhile isspace s @ lstrip s" by (simp add: lstrip_def)
  moreover have "\<forall>c\<in>set (takeWhile isspace s). isspace c" by (auto dest: set_takeWhileD)
  ultimately show ?thesis by blast
qed

lemma strip_decomp:
  "\<exists>a b. s = a @ strip s @ b \<and> (\<forall>c\<in>set a. isspace c) \<and> (\<forall>c\<in>set b. isspace c)"
proof -
  obtain a where a: "s = a @ lstrip s" "\<forall>c\<in>set a. isspace c"
    using lstrip_decomp by blast
  obtain b where b: "lstrip s = rstrip (lstrip s) @ b" "\<forall>c\<in>set b. isspace c"
    using rstrip_decomp by blast
  have "s = a @ strip s @ b" using a(1) b(1) by (simp add: strip_def)
  then show ?thesis using a(2) b(2) by blast
qed

lemma contains_of_strip_startswith:
  assumes "startswith (strip s) p"
  shows "str_contains s p"
proof -
  obtain r where r: "strip s = p @ r" using assms by (auto simp: startswith_iff)
  obtain a b where "s = a @ strip s @ b" using strip_decomp by blast
  then have "s = a @ p @ (r @ b)" using r by simp
  then show ?thesis unfolding str_contains_iff by blast
qed

lemma contains_of_startswith:
  assumes "startswith s p" and "str_contains p q"
  shows "str_contains s q"
proof -
  obtain r where "s = p @ r" using assms(1) by (auto simp: startswith_iff)
  moreover obtain a b where "p = a @ q @ b" using assms(2) by (auto simp: str_contains_iff)
  ultimately have "s = a @ q @ (b @ r)" by simp
  then show ?thesis unfolding str_contains_iff by blast
qed

lemma rstrip_char_decomp:
  "s = rstrip_char c s @ replicate (length s - length (rstrip_char c s)) c"
proof -
  let ?t = "takeWhile (\<lambda>x. x = c) (rev s)"
  let ?d = "dropWhile (\<lambda>x. x = c) (rev s)"
  have "rev s = ?t @ ?d" by simp
  then have s: "s = rev ?d @ rev ?t" by (metis rev_append rev_rev_ident)
  have "\<forall>y\<in>set (rev ?t). y = c" by (auto dest: set_takeWhileD)
  then have "replicate (length (rev ?t)) c = rev ?t" by (rule replicate_length_same)
  moreover have "length s = length (rev ?d) + length (rev ?t)"
    using s by (metis length_append)
  then have "length (rev ?t) = length s - length (rev ?d)" by simp
  ultimately show ?thesis using s by (simp add: rstrip_char_def)
qed

lemma rstrip_char_snoc_same: "rstrip_char c (s @ [c]) = rstrip_char c s"
  by (simp add: rstrip_char_def)

lemma rstrip_char_snoc_other: "x \<noteq> c \<Longrightarrow> rstrip_char c (s @ [x]) = s @ [x]"
  by (simp add: rstrip_char_def)

lemma length_rstrip_char: "length (rstrip_char c s) \<le> length s"
  by (simp add: rstrip_char_def length_dropWhile_le order_trans[OF length_dropWhile_le])

lemma rstrip_char_snoc2: "x \<noteq> c \<Longrightarrow> rstrip_char c (s @ [x, c]) = s @ [x]"
  by (simp add: rstrip_char_def)

lemma rstrip_char_not_endswith: "\<not> endswith (rstrip_char c s) [c]"
proof
  assume "endswith (rstrip_char c s) [c]"
  then obtain a where "rstrip_char c s = a @ [c]" by (auto simp: endswith_iff)
  then have "rev (dropWhile (\<lambda>x. x = c) (rev s)) = a @ [c]" by (simp add: rstrip_char_def)
  then have d: "dropWhile (\<lambda>x. x = c) (rev s) = c # rev a" by (simp add: rev_swap)
  then have "dropWhile (\<lambda>x. x = c) (rev s) \<noteq> []" by simp
  then have "hd (dropWhile (\<lambda>x. x = c) (rev s)) \<noteq> c" by (rule hd_dropWhile)
  then show False using d by simp
qed

lemma rstrip_of_strip:
  assumes "strip s \<noteq> []"
  shows "\<exists>a. rstrip s = a @ strip s \<and> (\<forall>c\<in>set a. isspace c)"
proof -
  let ?a = "takeWhile isspace s"
  let ?t = "lstrip s"
  have s: "s = ?a @ ?t" by (simp add: lstrip_def)
  have "dropWhile isspace (rev ?t) \<noteq> []"
    using assms by (simp add: strip_def rstrip_def)
  then obtain x where x: "x \<in> set (rev ?t)" "\<not> isspace x"
    by (metis dropWhile_eq_Nil_conv)
  have "rev s = rev ?t @ rev ?a" using s by (metis rev_append)
  then have "rstrip s = rev (dropWhile isspace (rev ?t @ rev ?a))"
    by (simp add: rstrip_def)
  also have "\<dots> = rev (dropWhile isspace (rev ?t) @ rev ?a)"
    using x by (simp add: dropWhile_append1)
  also have "\<dots> = ?a @ strip s" by (simp add: strip_def rstrip_def)
  finally have "rstrip s = ?a @ strip s" .
  moreover have "\<forall>c\<in>set ?a. isspace c" by (auto dest: set_takeWhileD)
  ultimately show ?thesis by blast
qed

lemma closing_line_cases:
  "closing_line t \<longleftrightarrow> (\<exists>u. t = u @ [BACKTICK, COMMA]) \<or> t = [BACKTICK]"
  by (auto simp: closing_line_def endswith_iff)

section \<open>The extractor raises no error\<close>

lemma colon_split_ok:
  assumes "startswith s (str ''id:'') \<or> startswith s (str ''title:'') \<or> startswith s (str ''icon:'')"
  shows "\<exists>v. split1_second s (str '':'') = Inr v"
proof -
  have "str_contains (str ''id:'') (str '':'')" "str_contains (str ''title:'') (str '':'')"
    "str_contains (str ''icon:'') (str '':'')"
    by (simp_all add: str_def startswith_def)
  then have "str_contains s (str '':'')"
    using assms contains_of_startswith by blast
  moreover have "str '':'' \<noteq> []" by (simp add: str_def)
  ultimately show ?thesis by (rule split1_second_ok[rotated])
qed

lemma marker_split_ok:
  assumes "startswith (strip line) p" and "p \<noteq> []"
  shows "\<exists>v. split1_second line p = Inr v"
  using assms contains_of_strip_startswith split1_second_ok by blast

lemma step_root_ok: "state st = STATE_ROOT \<Longrightarrow> \<exists>st'. step_root st line = Inr st' \<and> parser_inv st'"
  by (auto simp: step_root_def parser_inv_def)

lemma step_in_sections_array_ok:
  "state st = STATE_IN_SECTIONS_ARRAY \<Longrightarrow>
   \<exists>st'. step_in_sections_array st stripped = Inr st' \<and> parser_inv st'"
  by (auto simp: step_in_sections_array_def parser_inv_def)

lemma step_in_section_ok:
  assumes "state st = STATE_IN_SECTION" and "parser_inv st"
  shows "\<exists>st'. step_in_section st stripped = Inr st' \<and> parser_inv st'"
proof -
  obtain sec where sec: "current_section st = Some sec"
    using assms by (auto simp: parser_inv_def)
  show ?thesis
    using assms sec colon_split_ok[of stripped]
    by (auto simp: step_in_section_def set_section_def parser_inv_def split: sum.splits)
qed

lemma step_in_subsections_array_ok:
  assumes "state st = STATE_IN_SUBSECTIONS_ARRAY" and "parser_inv st"
  shows "\<exists>st'. step_in_subsections_array st stripped = Inr st' \<and> parser_inv st'"
  using assms by (auto simp: step_in_subsections_array_def parser_inv_def)

lemma step_in_subsection_ok:
  assumes "state st = STATE_IN_SUBSECTION" and "parser_inv st"
  shows "\<exists>st'. step_in_subsection st line (strip line) = Inr st' \<and> parser_inv st'"
proof -
  obtain sec sub where cur: "current_section st = Some sec" "current_subsection st = Some sub"
    using assms by (auto simp: parser_inv_def)
  have ne: "str ''content: `'' \<noteq> []" "str ''code: `'' \<noteq> []" by (simp_all add: str_def)
  show ?thesis
    using assms cur colon_split_ok[of "strip line"]
      marker_split_ok[of line "str ''content: `''"] marker_split_ok[of line "str ''code: `''"] ne
    by (auto simp: step_in_subsection_def set_subsection_def parser_inv_def split: sum.splits)
qed

lemma step_in_content_ok:
  assumes "state st = STATE_IN_CONTENT" and "parser_inv st"
  shows "\<exists>st'. step_in_content st line stripped = Inr st' \<and> parser_inv st'"
  using assms
  by (auto simp: step_in_content_def set_subsection_def parser_inv_def Let_def split: sum.splits)

lemma step_in_code_ok:
  assumes "state st = STATE_IN_CODE" and "parser_inv st"
  shows "\<exists>st'. step_in_code st line stripped = Inr st' \<and> parser_inv st'"
  using assms
  by (auto simp: step_in_code_def set_subsection_def parser_inv_def Let_def split: sum.splits)

lemma step_in_notes_ok:
  assumes "state st = STATE_IN_NOTES" and "parser_inv st"
  shows "\<exists>st'. step_in_notes st stripped = Inr st' \<and> parser_inv st'"
  using assms
  by (auto simp: step_in_notes_def append_note_def parser_inv_def split: option.splits)

lemma step_in_decisions_ok:
  assumes "state st = STATE_IN_DECISIONS" and "parser_inv st"
  shows "\<exists>st'. step_in_decisions st stripped = Inr st' \<and> parser_inv st'"
  using assms
  by (auto simp: step_in_decisions_def append_decision_def parser_inv_def split: option.splits)

lemma step_ok: "parser_inv st \<Longrightarrow> \<exists>st'. step st line = Inr st' \<and> parser_inv st'"
  unfolding step_def Let_def
  by (cases "state st")
     (simp_all add: step_root_ok step_in_sections_array_ok step_in_section_ok
        step_in_subsections_array_ok step_in_subsection_ok step_in_content_ok
        step_in_code_ok step_in_notes_ok step_in_decisions_ok)

lemma run_ok: "parser_inv st \<Longrightarrow> \<exists>st'. run st ls = Inr st' \<and> parser_inv st'"
proof (induction ls arbitrary: st)
  case Nil
  then show ?case by simp
next
  case (Cons l ls)
  from step_ok[OF Cons.prems] obtain st1 where "step st l = Inr st1" "parser_inv st1" by blast
  then show ?case using Cons.IH by simp
qed

lemma init_inv: "parser_inv init"
  by (simp add: parser_inv_def init_def)

lemma parse_total: "\<exists>secs. parse_ts_file content = Inr secs"
  using run_ok[OF init_inv, of "str_split NEWLINE content"]
  by (auto simp: parse_ts_file_def)

lemma unrecognized_skipped: "\<not> recognized (state st) line \<Longrightarrow> step st line = Inr st"
  by (cases "state st")
     (simp_all add: recognized_def step_def Let_def step_root_def step_in_sections_array_def
        step_in_section_def step_in_subsections_array_def step_in_subsection_def
        step_in_notes_def step_in_decisions_def)

lemma field_marker_unrecognized:
  assumes "field_marker (strip line)" and "expects_no_field s"
  shows "\<not> recognized s line"
proof -
  obtain b where "strip line = str ''id:'' @ b \<or> strip line = str ''title:'' @ b \<or>
     strip line = str ''icon:'' @ b \<or> strip line = str ''subsections: ['' @ b \<or>
     strip line = str ''content: `'' @ b \<or> strip line = str ''code: `'' @ b \<or>
     strip line = str ''notes: ['' @ b \<or> strip line = str ''decisions: ['' @ b"
    using assms(1) unfolding field_marker_def startswith_iff by blast
  then have hd: "strip line \<noteq> [] \<and> hd (strip line) \<in> {0x69, 0x74, 0x73, 0x63, 0x6E, 0x64}"
    by (auto simp: str_def)
  have "\<not> startswith (strip line) [SQUOTE]" "\<not> startswith (strip line) [DQUOTE]"
    "\<not> startswith (strip line) (str ''],'')" "strip line \<noteq> str '']''" "strip line \<noteq> str ''],''"
    "strip line \<noteq> str ''{''" "strip line \<noteq> str ''];''"
    using hd by (auto simp: startswith_iff str_def SQUOTE_def DQUOTE_def)
  then show ?thesis
    using assms(2) by (auto simp: recognized_def expects_no_field_def Let_def)
qed

lemma root_sets_no_field:
  "state st = STATE_ROOT \<Longrightarrow>
   step st line = Inr st \<or> step st line = Inr (st\<lparr>state := STATE_IN_SECTIONS_ARRAY\<rparr>)"
  by (simp add: step_def step_root_def Let_def)

text \<open>
  Claim C7. On every input text the extractor returns a list of sections: no branch of
  the loop raises. A line that a state does not react to leaves the whole parser state
  as it was; so does a line starting with a field marker in the states that expect no
  field (the two array states and the two list states); and in the root state a line can
  only change the state, to that of the sections array, and sets no field.
\<close>

theorem extractor_total_and_permissive:
  "(\<exists>secs. parse_ts_file content = Inr secs) \<and>
   (\<not> recognized (state st) line \<longrightarrow> step st line = Inr st) \<and>
   (field_marker (strip line) \<and> expects_no_field (state st) \<longrightarrow> step st line = Inr st) \<and>
   (state st = STATE_ROOT \<longrightarrow>
      step st line = Inr st \<or> step st line = Inr (st\<lparr>state := STATE_IN_SECTIONS_ARRAY\<rparr>))"
  using parse_total unrecognized_skipped field_marker_unrecognized root_sets_no_field
  by blast

theorem extractor_total_and_permissive_witness:
  "\<not> recognized (state (capturing\<lparr>state := STATE_IN_NOTES\<rparr>)) (str ''  title: \"x\",'') \<and>
   field_marker (strip (str ''  title: \"x\",'')) \<and>
   expects_no_field (state (capturing\<lparr>state := STATE_IN_NOTES\<rparr>)) \<and>
   step (capturing\<lparr>state := STATE_IN_NOTES\<rparr>) (str ''  title: \"x\",'') =
     Inr (capturing\<lparr>state := STATE_IN_NOTES\<rparr>) \<and>
   state init = STATE_ROOT \<and>
   step init (str ''export const specSections = ['') =
     Inr (init\<lparr>state := STATE_IN_SECTIONS_ARRAY\<rparr>) \<and>
   (\<exists>secs. parse_ts_file (str ''}}}'' @ [NEWLINE] @ str ''title: `'') = Inr secs)"
  using extractor_total_and_permissive
          [of "str ''}}}'' @ [NEWLINE] @ str ''title: `''"
              "capturing\<lparr>state := STATE_IN_NOTES\<rparr>" "str ''  title: \"x\",''"]
        extractor_total_and_permissive
          [of "str ''}}}'' @ [NEWLINE] @ str ''title: `''" init
              "str ''export const specSections = [''"]
  by (simp add: recognized_def field_marker_def expects_no_field_def capturing_def init_def
      step_def step_root_def ev_str)

section \<open>Buffered capture of a content or code field\<close>

lemma closing_val_decomp:
  assumes "closing_line (strip line)"
  shows "\<exists>k j ws. 1 \<le> k \<and> j \<le> 1 \<and> (\<forall>c\<in>set ws. isspace c) \<and>
           line = closing_val line @ replicate k BACKTICK @ replicate j COMMA @ ws"
proof -
  have ne: "BACKTICK \<noteq> COMMA" by (simp add: BACKTICK_def COMMA_def)
  obtain ws where ws: "line = rstrip line @ ws" "\<forall>c\<in>set ws. isspace c"
    using rstrip_decomp by blast
  have "strip line \<noteq> []" using assms by (auto simp: closing_line_cases)
  then obtain a where a: "rstrip line = a @ strip line"
    using rstrip_of_strip by blast
  let ?r1 = "rstrip_char COMMA (rstrip line)"
  have r1: "\<exists>j\<le>1. rstrip line = ?r1 @ replicate j COMMA \<and> (\<exists>v. ?r1 = v @ [BACKTICK])"
  proof -
    from assms consider u where "strip line = u @ [BACKTICK, COMMA]" | "strip line = [BACKTICK]"
      by (auto simp: closing_line_cases)
    then show ?thesis
    proof cases
      case 1
      then have r: "rstrip line = (a @ u) @ [BACKTICK, COMMA]" using a by simp
      have "?r1 = (a @ u) @ [BACKTICK]"
        unfolding r using ne by (rule rstrip_char_snoc2)
      then have "rstrip line = ?r1 @ replicate 1 COMMA \<and> ?r1 = (a @ u) @ [BACKTICK]"
        using r by simp
      then show ?thesis by blast
    next
      case 2
      then have r: "rstrip line = a @ [BACKTICK]" using a by simp
      have "?r1 = a @ [BACKTICK]"
        unfolding r using ne by (rule rstrip_char_snoc_other)
      then have "rstrip line = ?r1 @ replicate 0 COMMA \<and> ?r1 = a @ [BACKTICK]"
        using r by simp
      then show ?thesis by blast
    qed
  qed
  then obtain j v where j: "j \<le> 1" "rstrip line = ?r1 @ replicate j COMMA" "?r1 = v @ [BACKTICK]"
    by blast
  let ?k = "length ?r1 - length (closing_val line)"
  have val: "?r1 = closing_val line @ replicate ?k BACKTICK"
    unfolding closing_val_def by (rule rstrip_char_decomp)
  have "closing_val line = rstrip_char BACKTICK v"
    using j(3) by (simp add: closing_val_def rstrip_char_snoc_same)
  then have "length (closing_val line) \<le> length v" by (simp add: length_rstrip_char)
  then have k: "1 \<le> ?k" using j(3) by simp
  have "line = (?r1 @ replicate j COMMA) @ ws" using ws(1) j(2) by simp
  also have "\<dots> = ((closing_val line @ replicate ?k BACKTICK) @ replicate j COMMA) @ ws"
    using val by simp
  finally have "line = closing_val line @ replicate ?k BACKTICK @ replicate j COMMA @ ws"
    by simp
  then show ?thesis using k j(1) ws(2) by blast
qed

text \<open>
  Claim C1 as stated fails on a line that ends with the backtick after other text and
  has no comma: the test of the source asks for the backtick followed by a comma at the
  end of the stripped line, or for the stripped line to be the backtick alone, so such a
  line is appended to the buffer and the capture goes on.
\<close>

theorem bare_backtick_line_is_buffered:
  "claimed_closing_line (strip (str ''last`'')) \<and>
   step capturing (str ''last`'') = Inr (capturing\<lparr>buffer := [str ''first'', str ''last`'']\<rparr>)"
  by (simp add: claimed_closing_line_def capturing_def ev_str ev_step)

lemma rstrip_append_spaces: "\<forall>c\<in>set ws. isspace c \<Longrightarrow> rstrip (x @ ws) = rstrip x"
  by (simp add: rstrip_def dropWhile_append)

lemma rstrip_snoc_nonspace: "\<not> isspace c \<Longrightarrow> rstrip (x @ [c]) = x @ [c]"
  by (simp add: rstrip_def)

lemma rstrip_char_replicate: "rstrip_char c (x @ replicate j c) = rstrip_char c x"
  by (simp add: rstrip_char_def dropWhile_append)

lemma rstrip_char_id:
  assumes "\<not> endswith t [c]"
  shows "rstrip_char c t = t"
proof (cases "rev t")
  case Nil
  then show ?thesis by (simp add: rstrip_char_def)
next
  case (Cons y ys)
  then have t: "t = rev ys @ [y]" by (simp add: rev_swap)
  then have "y \<noteq> c" using assms by (auto simp: endswith_iff)
  then show ?thesis using Cons by (simp add: rstrip_char_def t)
qed

lemma nonspace_delimiters: "\<not> isspace BACKTICK" "\<not> isspace COMMA" "BACKTICK \<noteq> COMMA"
  by (simp_all add: isspace_def BACKTICK_def COMMA_def)

lemma closing_val_exact:
  assumes "line = kept @ [BACKTICK] @ replicate j COMMA @ ws"
    and "\<forall>c\<in>set ws. isspace c" and "\<not> endswith kept [BACKTICK]"
  shows "closing_val line = kept"
proof -
  have "kept @ [BACKTICK] @ replicate j COMMA = (kept @ [BACKTICK] @ replicate (j - 1) COMMA) @ [COMMA]"
    if "0 < j"
    using that by (cases j) (simp_all add: replicate_append_same)
  then have "rstrip (kept @ [BACKTICK] @ replicate j COMMA) = kept @ [BACKTICK] @ replicate j COMMA"
    using nonspace_delimiters rstrip_snoc_nonspace[of BACKTICK kept]
      rstrip_snoc_nonspace[of COMMA "kept @ [BACKTICK] @ replicate (j - 1) COMMA"]
    by (cases "j = 0") auto
  then have 1: "rstrip line = (kept @ [BACKTICK]) @ replicate j COMMA"
    using assms(1,2) rstrip_append_spaces[of ws "kept @ [BACKTICK] @ replicate j COMMA"] by simp
  have 2: "rstrip_char COMMA ((kept @ [BACKTICK]) @ replicate j COMMA) = kept @ [BACKTICK]"
    unfolding rstrip_char_replicate
    using nonspace_delimiters(3) by (rule rstrip_char_snoc_other)
  have 3: "rstrip_char BACKTICK (kept @ [BACKTICK]) = kept"
    using rstrip_char_id[OF assms(3)] by (simp add: rstrip_char_snoc_same)
  show ?thesis by (simp only: closing_val_def 1 2 3)
qed

lemma closing_line_of_exact:
  assumes "line = kept @ [BACKTICK] @ [COMMA] @ ws" and "\<forall>c\<in>set ws. isspace c"
  shows "closing_line (strip line)"
proof -
  have ns: "\<not> isspace COMMA" by (rule nonspace_delimiters)
  let ?x = "kept @ [BACKTICK, COMMA]"
  have l: "line = ?x @ ws" using assms(1) by simp
  have "lstrip ?x \<noteq> []"
    using ns by (auto simp: lstrip_def dropWhile_eq_Nil_conv)
  obtain a where a: "?x = a @ lstrip ?x" using lstrip_decomp by blast
  have "\<exists>x\<in>set ?x. \<not> isspace x" using ns by auto
  then have "lstrip (?x @ ws) = lstrip ?x @ ws"
    unfolding lstrip_def by (metis dropWhile_append1)
  then have s: "strip line = rstrip (lstrip ?x)"
    using l assms(2) by (simp add: strip_def rstrip_append_spaces)
  obtain u where u: "lstrip ?x = u @ [BACKTICK, COMMA]"
  proof -
    have "lstrip ?x = dropWhile isspace kept @ [BACKTICK, COMMA] \<or> lstrip ?x = [BACKTICK, COMMA]"
      using nonspace_delimiters
      by (cases "\<forall>c\<in>set kept. isspace c") (auto simp: lstrip_def dropWhile_append)
    then show ?thesis using that by (metis append_Nil)
  qed
  have "rstrip (u @ [BACKTICK, COMMA]) = u @ [BACKTICK, COMMA]"
    using rstrip_snoc_nonspace[OF ns, of "u @ [BACKTICK]"] by simp
  then have "strip line = u @ [BACKTICK, COMMA]" using s u by simp
  then show ?thesis by (simp add: closing_line_cases)
qed

text \<open>
  Claim C1, amended. During the buffered capture of a content or code field, a line
  whose stripped form is the backtick alone, or ends with the backtick followed by a
  comma, ends the capture; every other line, also one that ends with a backtick after
  other text and has no comma, is appended to the buffer as it is. On the closing line
  the delimiter, the comma and the whitespace after them are cut off (stated for a line
  whose text before the delimiter does not itself end with a backtick) and the text
  that is left is appended to the buffer when it is not empty; the buffer joined with
  newlines is stored in the field and the state is that of the subsection again.
\<close>

theorem buffered_capture_step:
  assumes "current_subsection st = Some sub"
  shows
    "(state st = STATE_IN_CONTENT \<longrightarrow>
        step st line =
          (if closing_line (strip line)
           then Inr (st\<lparr>buffer := closed_buffer st line,
                        current_subsection :=
                          Some (sub\<lparr>sub_content :=
                                  Some (str_join [NEWLINE] (closed_buffer st line))\<rparr>),
                        state := STATE_IN_SUBSECTION\<rparr>)
           else Inr (st\<lparr>buffer := buffer st @ [line]\<rparr>))) \<and>
     (state st = STATE_IN_CODE \<longrightarrow>
        step st line =
          (if closing_line (strip line)
           then Inr (st\<lparr>buffer := closed_buffer st line,
                        current_subsection :=
                          Some (sub\<lparr>sub_code :=
                                  Some (str_join [NEWLINE] (closed_buffer st line))\<rparr>),
                        state := STATE_IN_SUBSECTION\<rparr>)
           else Inr (st\<lparr>buffer := buffer st @ [line]\<rparr>))) \<and>
     (closing_line (strip line) \<longleftrightarrow>
        strip line = [BACKTICK] \<or> endswith (strip line) [BACKTICK, COMMA]) \<and>
     (line = kept @ [BACKTICK] @ replicate j COMMA @ ws \<and> (\<forall>c\<in>set ws. isspace c) \<and>
      \<not> endswith kept [BACKTICK] \<longrightarrow>
        closed_buffer st line = (if kept = [] then buffer st else buffer st @ [kept]))"
proof -
  have 1: "state st = STATE_IN_CONTENT \<longrightarrow>
        step st line =
          (if closing_line (strip line)
           then Inr (st\<lparr>buffer := closed_buffer st line,
                        current_subsection :=
                          Some (sub\<lparr>sub_content :=
                                  Some (str_join [NEWLINE] (closed_buffer st line))\<rparr>),
                        state := STATE_IN_SUBSECTION\<rparr>)
           else Inr (st\<lparr>buffer := buffer st @ [line]\<rparr>))"
    using assms
    by (simp add: step_def step_in_content_def set_subsection_def closed_buffer_def Let_def)
  have 2: "state st = STATE_IN_CODE \<longrightarrow>
        step st line =
          (if closing_line (strip line)
           then Inr (st\<lparr>buffer := closed_buffer st line,
                        current_subsection :=
                          Some (sub\<lparr>sub_code :=
                                  Some (str_join [NEWLINE] (closed_buffer st line))\<rparr>),
                        state := STATE_IN_SUBSECTION\<rparr>)
           else Inr (st\<lparr>buffer := buffer st @ [line]\<rparr>))"
    using assms
    by (simp add: step_def step_in_code_def set_subsection_def closed_buffer_def Let_def)
  have 3: "closing_line (strip line) \<longleftrightarrow>
        strip line = [BACKTICK] \<or> endswith (strip line) [BACKTICK, COMMA]"
    by (auto simp: closing_line_def endswith_iff)
  have 4: "line = kept @ [BACKTICK] @ replicate j COMMA @ ws \<and> (\<forall>c\<in>set ws. isspace c) \<and>
      \<not> endswith kept [BACKTICK] \<longrightarrow>
        closed_buffer st line = (if kept = [] then buffer st else buffer st @ [kept])"
    using closing_val_exact[of line kept j ws] by (simp add: closed_buffer_def)
  show ?thesis using 1 2 3 4 by blast
qed

theorem buffered_capture_step_witness:
  "current_subsection capturing = Some empty_subsection \<and>
   state capturing = STATE_IN_CONTENT \<and>
   str ''  last`,  '' = str ''  last'' @ [BACKTICK] @ replicate 1 COMMA @ str ''  '' \<and>
   list_all isspace (str ''  '') \<and>
   \<not> endswith (str ''  last'') [BACKTICK] \<and>
   closing_line (strip (str ''  last`,  '')) \<and>
   step capturing (str ''  last`,  '') =
     Inr (capturing\<lparr>buffer := [str ''first'', str ''  last''],
            current_subsection :=
              Some (empty_subsection\<lparr>sub_content :=
                      Some (str ''first'' @ [NEWLINE] @ str ''  last'')\<rparr>),
            state := STATE_IN_SUBSECTION\<rparr>) \<and>
   state (capturing\<lparr>state := STATE_IN_CODE\<rparr>) = STATE_IN_CODE \<and>
   step (capturing\<lparr>state := STATE_IN_CODE\<rparr>) (str ''  last`,  '') =
     Inr (capturing\<lparr>buffer := [str ''first'', str ''  last''],
            current_subsection :=
              Some (empty_subsection\<lparr>sub_code :=
                      Some (str ''first'' @ [NEWLINE] @ str ''  last'')\<rparr>),
            state := STATE_IN_SUBSECTION\<rparr>) \<and>
   \<not> closing_line (strip (str ''last`'')) \<and>
   step capturing (str ''last`'') =
     Inr (capturing\<lparr>buffer := [str ''first'', str ''last`'']\<rparr>)"
proof -
  have d: "str ''  last`,  '' = str ''  last'' @ [BACKTICK] @ replicate 1 COMMA @ str ''  ''"
    "list_all isspace (str ''  '')" "\<not> endswith (str ''  last'') [BACKTICK]"
    "closing_line (strip (str ''  last`,  ''))" "\<not> closing_line (strip (str ''last`''))"
    by (simp_all add: closing_line_def ev_str)
  have sp: "\<forall>c\<in>set (str ''  ''). isspace c" using d(2) by (simp add: list_all_iff)
  have c: "current_subsection capturing = Some empty_subsection"
    "current_subsection (capturing\<lparr>state := STATE_IN_CODE\<rparr>) = Some empty_subsection"
    "state capturing = STATE_IN_CONTENT" "buffer capturing = [str ''first'']"
    by (simp_all add: capturing_def)
  note b1 = buffered_capture_step [OF c(1), where line = "str ''  last`,  ''"
      and kept = "str ''  last''" and j = 1 and ws = "str ''  ''"]
  note b2 = buffered_capture_step [OF c(2), where line = "str ''  last`,  ''"
      and kept = "str ''  last''" and j = 1 and ws = "str ''  ''"]
  note b3 = buffered_capture_step [OF c(1), where line = "str ''last`''"]
  have k: "str ''  last'' \<noteq> []" by (simp add: str_def)
  have cb: "closed_buffer capturing (str ''  last`,  '') = [str ''first'', str ''  last'']"
    "closed_buffer (capturing\<lparr>state := STATE_IN_CODE\<rparr>) (str ''  last`,  '') =
       [str ''first'', str ''  last'']"
    using b1 b2 d(1,3) sp k c(4) by simp_all
  have r1: "step capturing (str ''  last`,  '') =
     Inr (capturing\<lparr>buffer := [str ''first'', str ''  last''],
            current_subsection :=
              Some (empty_subsection\<lparr>sub_content :=
                      Some (str ''first'' @ [NEWLINE] @ str ''  last'')\<rparr>),
            state := STATE_IN_SUBSECTION\<rparr>)"
    using b1 c(3) d(4) cb(1) by simp
  have r2: "step (capturing\<lparr>state := STATE_IN_CODE\<rparr>) (str ''  last`,  '') =
     Inr (capturing\<lparr>buffer := [str ''first'', str ''  last''],
            current_subsection :=
              Some (empty_subsection\<lparr>sub_code :=
                      Some (str ''first'' @ [NEWLINE] @ str ''  last'')\<rparr>),
            state := STATE_IN_SUBSECTION\<rparr>)"
    using b2 d(4) cb(2) by simp
  have r3: "step capturing (str ''last`'') =
     Inr (capturing\<lparr>buffer := [str ''first'', str ''last`'']\<rparr>)"
    using b3 c(3,4) d(5) by simp
  show ?thesis using c d r1 r2 r3 by simp
qed

section \<open>The entry point: what a run reads and writes\<close>

lemma dirname_target: "dirname target_file = str ''src/spec/docs''"
  by (simp add: dirname_def target_file_def SLASH_def str_def rstrip_char_def Let_def)

lemma ancestors_target: "ancestors (dirname target_file) = docs_dirs"
  by (simp add: dirname_target ancestors_def docs_dirs_def SLASH_def str_def)

lemma mkdirs_result:
  "mkdirs fs ds = (None, fs') \<Longrightarrow>
     (\<forall>d\<in>set ds. fs' d = Some Dir) \<and> (\<forall>p. fs p \<noteq> None \<longrightarrow> fs' p = fs p) \<and>
     (\<forall>p. p \<notin> set ds \<longrightarrow> fs' p = fs p)"
proof (induction ds arbitrary: fs)
  case Nil
  then show ?case by simp
next
  case (Cons d ds)
  show ?case
  proof (cases "fs d")
    case None
    then have m: "mkdirs (fs(d \<mapsto> Dir)) ds = (None, fs')" using Cons.prems by simp
    from Cons.IH[OF m] have ih: "\<forall>x\<in>set ds. fs' x = Some Dir"
      "\<forall>p. (fs(d \<mapsto> Dir)) p \<noteq> None \<longrightarrow> fs' p = (fs(d \<mapsto> Dir)) p"
      "\<forall>p. p \<notin> set ds \<longrightarrow> fs' p = (fs(d \<mapsto> Dir)) p" by blast+
    have "fs' d = Some Dir" using ih(2) by simp
    moreover have "\<forall>p. fs p \<noteq> None \<longrightarrow> fs' p = fs p"
      using ih(2) None by (metis fun_upd_apply)
    moreover have "\<forall>p. p \<notin> set (d # ds) \<longrightarrow> fs' p = fs p"
      using ih(3) by simp
    ultimately show ?thesis using ih(1) by simp
  next
    case (Some n)
    show ?thesis
    proof (cases n)
      case (File data)
      then show ?thesis using Cons.prems Some by simp
    next
      case Dir
      then have m: "mkdirs fs ds = (None, fs')" using Cons.prems Some by simp
      from Cons.IH[OF m] show ?thesis using Some Dir by auto
    qed
  qed
qed

lemma mkdirs_idem: "\<forall>d\<in>set ds. fs d = Some Dir \<Longrightarrow> mkdirs fs ds = (None, fs)"
  by (induction ds) simp_all

lemma mkdirs_error_unchanged_target:
  "mkdirs fs ds = (r, fs') \<Longrightarrow> p \<notin> set ds \<Longrightarrow> fs' p = fs p"
proof (induction ds arbitrary: fs)
  case Nil
  then show ?case by simp
next
  case (Cons d ds)
  then show ?case by (cases "fs d") (auto split: node.splits)
qed

lemma paths_distinct:
  "source_file \<noteq> target_file" "target_file \<notin> set docs_dirs" "source_file \<notin> set docs_dirs"
  "dirname target_file \<in> set docs_dirs"
proof -
  show "source_file \<noteq> target_file" "target_file \<notin> set docs_dirs"
    "source_file \<notin> set docs_dirs"
    by (simp_all add: source_file_def target_file_def docs_dirs_def str_def)
  show "dirname target_file \<in> set docs_dirs"
    unfolding dirname_target by (simp add: docs_dirs_def)
qed

lemma main_with_success:
  assumes "main_with p g fs = (Inr n, fs1)"
  shows "\<exists>c secs out fsd. read_file fs source_file = Inr c \<and> p c = Inr secs \<and>
           g secs = Inr out \<and> n = length secs \<and> mkdirs fs docs_dirs = (None, fsd) \<and>
           fsd target_file \<noteq> Some Dir \<and> fs1 = fsd(target_file \<mapsto> File out)"
  using assms
  by (auto simp: main_with_def makedirs_def ancestors_target write_file_def
      split: sum.splits prod.splits option.splits node.splits)

lemma main_with_target_changed:
  assumes "main_with p g fs = (r, fs')" and "fs' target_file \<noteq> fs target_file"
  shows "\<exists>c secs out. read_file fs source_file = Inr c \<and> p c = Inr secs \<and>
           g secs = Inr out \<and> fs' target_file = Some (File out)"
proof -
  have keep: "mkdirs fs docs_dirs = (x, fsd) \<Longrightarrow> fsd target_file = fs target_file" for x fsd
    using mkdirs_error_unchanged_target paths_distinct(2) by blast
  show ?thesis
    using assms keep
    by (auto simp: main_with_def makedirs_def ancestors_target write_file_def
        split: sum.splits prod.splits option.splits node.splits)
qed

lemma main_rerun:
  assumes "main fs = (Inr n, fs1)"
  shows "main fs1 = (Inr n, fs1)"
proof -
  obtain c secs out fsd where h: "read_file fs source_file = Inr c" "parse_ts_file c = Inr secs"
    "Inr (generate_markdown secs) = (Inr out :: error + ustring)" "n = length secs"
    "mkdirs fs docs_dirs = (None, fsd)" "fsd target_file \<noteq> Some Dir"
    "fs1 = fsd(target_file \<mapsto> File out)"
    using main_with_success[OF assms[unfolded main_def]] by blast
  have out: "out = generate_markdown secs" using h(3) by simp
  have fsd: "\<forall>d\<in>set docs_dirs. fsd d = Some Dir" "\<forall>p. fs p \<noteq> None \<longrightarrow> fsd p = fs p"
    using mkdirs_result[OF h(5)] by blast+
  have "fs source_file \<noteq> None" using h(1) by (auto simp: read_file_def split: option.splits)
  then have "fs1 source_file = fs source_file"
    using fsd(2) h(7) paths_distinct(1) by simp
  then have r: "read_file fs1 source_file = Inr c" using h(1) by (simp add: read_file_def)
  have "\<forall>d\<in>set docs_dirs. fs1 d = Some Dir"
    using fsd(1) h(7) paths_distinct(2) by auto
  then have m: "mkdirs fs1 docs_dirs = (None, fs1)" and p: "fs1 (dirname target_file) = Some Dir"
    using mkdirs_idem paths_distinct(4) by blast+
  have t: "fs1 target_file = Some (File out)" using h(7) by simp
  have "fs1(target_file \<mapsto> File out) = fs1" using h(7) by simp
  then have w: "write_file fs1 target_file out = Inr fs1"
    using p t by (simp add: write_file_def)
  show ?thesis
    by (simp add: main_def main_with_def r h(2) out[symmetric] makedirs_def ancestors_target m w h(4))
qed

lemma main_scenario: "main fs_scenario = (Inr 1, fs_rendered)"
proof -
  let ?fsd = "fs_scenario(str ''src'' \<mapsto> Dir, str ''src/spec'' \<mapsto> Dir,
                str ''src/spec/docs'' \<mapsto> Dir)"
  have r: "read_file fs_scenario source_file = Inr scenario_input"
    by (simp add: read_file_def fs_scenario_def)
  have m: "makedirs fs_scenario (dirname target_file) = (None, ?fsd)"
    unfolding makedirs_def ancestors_target
    by (simp add: docs_dirs_def fs_scenario_def source_file_def str_def)
  have w: "write_file ?fsd target_file (str_join [NEWLINE] scenario_output) = Inr fs_rendered"
    unfolding write_file_def dirname_target
    by (simp add: fs_rendered_def fs_scenario_def source_file_def target_file_def str_def)
  show ?thesis
    by (simp add: main_def main_with_def r scenario_parse scenario_render m w)
       (simp add: scenario_tree_def)
qed

text \<open>
  Claim C9. The target is written only after reading, extraction and rendering have
  completed: when the source file cannot be read, or the extractor or the renderer ends
  with an error, the run ends with that error and leaves the file system as it was, the
  previous target included; and whenever a run of the entry point leaves a target other
  than the one it found, the source was read and extracted and the target holds the
  rendering of the extracted sections.
\<close>

theorem no_write_unless_extracted_and_rendered:
  "(read_file fs source_file = Inl e \<longrightarrow> main_with p g fs = (Inl e, fs)) \<and>
   (read_file fs source_file = Inr c \<and> p c = Inl e \<longrightarrow> main_with p g fs = (Inl e, fs)) \<and>
   (read_file fs source_file = Inr c \<and> p c = Inr secs \<and> g secs = Inl e \<longrightarrow>
      main_with p g fs = (Inl e, fs)) \<and>
   (main fs = (r, fs') \<and> fs' target_file \<noteq> fs target_file \<longrightarrow>
      (\<exists>c secs. read_file fs source_file = Inr c \<and> parse_ts_file c = Inr secs \<and>
         fs' target_file = Some (File (generate_markdown secs))))"
proof -
  have "main fs = (r, fs') \<and> fs' target_file \<noteq> fs target_file \<longrightarrow>
      (\<exists>c secs. read_file fs source_file = Inr c \<and> parse_ts_file c = Inr secs \<and>
         fs' target_file = Some (File (generate_markdown secs)))"
    using main_with_target_changed[of parse_ts_file "\<lambda>secs. Inr (generate_markdown secs)" fs r fs']
    by (auto simp: main_def)
  then show ?thesis by (simp add: main_with_def)
qed

theorem no_write_unless_extracted_and_rendered_witness:
  "read_file (\<lambda>p. None) source_file = Inl FileNotFoundError \<and>
   main (\<lambda>p. None) = (Inl FileNotFoundError, \<lambda>p. None) \<and>
   read_file fs_scenario source_file = Inr scenario_input \<and>
   main_with (\<lambda>c. Inl TypeError) (\<lambda>secs. Inr (generate_markdown secs)) fs_scenario =
     (Inl TypeError, fs_scenario) \<and>
   parse_ts_file scenario_input = Inr scenario_tree \<and>
   main_with parse_ts_file (\<lambda>secs. Inl TypeError) fs_scenario = (Inl TypeError, fs_scenario) \<and>
   main fs_scenario = (Inr 1, fs_rendered) \<and>
   fs_rendered target_file \<noteq> fs_scenario target_file \<and>
   fs_rendered target_file = Some (File (generate_markdown scenario_tree))"
proof -
  have r0: "read_file (\<lambda>p. None) source_file = Inl FileNotFoundError"
    by (simp add: read_file_def)
  have r1: "read_file fs_scenario source_file = Inr scenario_input"
    by (simp add: read_file_def fs_scenario_def)
  have t: "fs_rendered target_file \<noteq> fs_scenario target_file"
    by (simp add: fs_rendered_def fs_scenario_def source_file_def target_file_def str_def)
  have t': "fs_rendered target_file = Some (File (generate_markdown scenario_tree))"
    by (simp add: fs_rendered_def scenario_render)
  note nw = no_write_unless_extracted_and_rendered
  have a: "main (\<lambda>p. None) = (Inl FileNotFoundError, \<lambda>p. None)"
    using r0 nw [where fs = "\<lambda>p. None" and e = FileNotFoundError and p = parse_ts_file
                   and g = "\<lambda>secs. Inr (generate_markdown secs)"]
    by (simp add: main_def)
  have b: "main_with (\<lambda>c. Inl TypeError) (\<lambda>secs. Inr (generate_markdown secs)) fs_scenario =
     (Inl TypeError, fs_scenario)"
    using r1 nw [where fs = fs_scenario and c = scenario_input and e = TypeError
                   and p = "\<lambda>c. Inl TypeError" and g = "\<lambda>secs. Inr (generate_markdown secs)"]
    by simp
  have c: "main_with parse_ts_file (\<lambda>secs. Inl TypeError) fs_scenario =
     (Inl TypeError, fs_scenario)"
    using r1 scenario_parse
      nw [where fs = fs_scenario and c = scenario_input and e = TypeError
            and secs = scenario_tree and p = parse_ts_file and g = "\<lambda>secs. Inl TypeError"]
    by simp
  have d: "\<exists>c secs. read_file fs_scenario source_file = Inr c \<and> parse_ts_file c = Inr secs \<and>
         fs_rendered target_file = Some (File (generate_markdown secs))"
    using main_scenario t nw [where fs = fs_scenario and r = "Inr 1" and fs' = fs_rendered]
    by blast
  show ?thesis
    using r0 r1 t t' scenario_parse main_scenario a b c d by simp
qed

text \<open>
  Claim C8. The output is a function of the input text alone: two runs that read the
  same source text and succeed, whatever else the two file systems hold (the second may
  hold the output of the first), leave the same target text and report the same count;
  the target is the result of extraction followed by rendering on the source text; and a
  second run on the file system left by a successful run leaves it unchanged.
\<close>

theorem same_input_same_output:
  "(read_file fsA source_file = read_file fsB source_file \<and> main fsA = (Inr nA, fsA') \<and>
    main fsB = (Inr nB, fsB') \<longrightarrow> fsA' target_file = fsB' target_file \<and> nA = nB) \<and>
   (main fs = (Inr n, fs_out) \<longrightarrow>
      (\<exists>c out. read_file fs source_file = Inr c \<and> extract_and_render c = Inr out \<and>
         fs_out target_file = Some (File out)) \<and>
      main fs_out = (Inr n, fs_out))"
proof -
  have out: "\<exists>c secs. read_file f source_file = Inr c \<and> parse_ts_file c = Inr secs \<and>
      k = length secs \<and> f' target_file = Some (File (generate_markdown secs))"
    if "main f = (Inr k, f')" for f k f'
    using main_with_success[OF that[unfolded main_def]] by auto
  have 1: "read_file fsA source_file = read_file fsB source_file \<and> main fsA = (Inr nA, fsA') \<and>
    main fsB = (Inr nB, fsB') \<longrightarrow> fsA' target_file = fsB' target_file \<and> nA = nB"
    using out[of fsA nA fsA'] out[of fsB nB fsB'] by auto
  have 2: "main fs = (Inr n, fs_out) \<longrightarrow>
      (\<exists>c out. read_file fs source_file = Inr c \<and> extract_and_render c = Inr out \<and>
         fs_out target_file = Some (File out))"
    using out[of fs n fs_out] by (auto simp: extract_and_render_def)
  show ?thesis using 1 2 main_rerun by blast
qed

theorem same_input_same_output_witness:
  "read_file fs_scenario source_file = read_file fs_rendered source_file \<and>
   main fs_scenario = (Inr 1, fs_rendered) \<and>
   main fs_rendered = (Inr 1, fs_rendered) \<and>
   fs_rendered target_file = Some (File (str_join [NEWLINE] scenario_output))"
proof -
  have r: "read_file fs_scenario source_file = read_file fs_rendered source_file"
    by (simp add: read_file_def fs_rendered_def fs_scenario_def source_file_def target_file_def
        str_def)
  have t: "fs_rendered target_file = Some (File (str_join [NEWLINE] scenario_output))"
    by (simp add: fs_rendered_def)
  show ?thesis
    using r t main_scenario
      same_input_same_output [where fs = fs_scenario and n = 1 and fs_out = fs_rendered
        and fsA = fs_scenario and fsB = fs_rendered and nA = 1 and nB = 1
        and fsA' = fs_rendered and fsB' = fs_rendered]
    by simp
qed

section \<open>Declaration order\<close>

lemmas count_defs = sections_listed_or_open_def subsections_listed_or_open_def
  section_open_def subsection_open_def opens_section_def opens_subsection_def

lemma step_counts:
  assumes "parser_inv st" and "step st line = Inr st'"
  shows "sections_listed_or_open st' =
           sections_listed_or_open st + (if opens_section st line then 1 else 0) \<and>
         subsections_listed_or_open st' =
           subsections_listed_or_open st + (if opens_subsection st line then 1 else 0)"
proof (cases "state st")
  case STATE_ROOT
  then show ?thesis using assms
    by (auto simp: step_def Let_def step_root_def count_defs split: if_splits)
next
  case STATE_IN_SECTIONS_ARRAY
  then show ?thesis using assms
    by (auto simp: step_def Let_def step_in_sections_array_def count_defs new_section_def
        split: if_splits)
next
  case STATE_IN_SECTION
  then show ?thesis using assms
    by (auto simp: step_def Let_def step_in_section_def set_section_def count_defs parser_inv_def
        split: if_splits sum.splits option.splits)
next
  case STATE_IN_SUBSECTIONS_ARRAY
  then show ?thesis using assms
    by (auto simp: step_def Let_def step_in_subsections_array_def count_defs parser_inv_def
        split: if_splits)
next
  case STATE_IN_SUBSECTION
  then show ?thesis using assms
    by (auto simp: step_def Let_def step_in_subsection_def set_subsection_def count_defs parser_inv_def
        split: if_splits sum.splits option.splits)
next
  case STATE_IN_CONTENT
  then show ?thesis using assms
    by (auto simp: step_def Let_def step_in_content_def set_subsection_def count_defs parser_inv_def
        Let_def split: if_splits sum.splits option.splits)
next
  case STATE_IN_CODE
  then show ?thesis using assms
    by (auto simp: step_def Let_def step_in_code_def set_subsection_def count_defs parser_inv_def
        Let_def split: if_splits sum.splits option.splits)
next
  case STATE_IN_NOTES
  then show ?thesis using assms
    by (auto simp: step_def Let_def step_in_notes_def append_note_def count_defs parser_inv_def
        split: if_splits option.splits)
next
  case STATE_IN_DECISIONS
  then show ?thesis using assms
    by (auto simp: step_def Let_def step_in_decisions_def append_decision_def count_defs parser_inv_def
        split: if_splits option.splits)
qed

lemma run_append:
  "run st (ls1 @ ls2) = (case run st ls1 of Inl e \<Rightarrow> Inl e | Inr st1 \<Rightarrow> run st1 ls2)"
  by (induction ls1 arbitrary: st) (simp_all split: sum.splits)

lemma step_sections:
  assumes "step st line = Inr st'"
  shows "sections st' = sections st \<or>
         (\<exists>sec. current_section st = Some sec \<and> sections st' = sections st @ [sec])"
proof (cases "state st")
  case STATE_ROOT
  then show ?thesis using assms
    by (auto simp: step_def Let_def step_root_def split: if_splits)
next
  case STATE_IN_SECTIONS_ARRAY
  then show ?thesis using assms
    by (auto simp: step_def Let_def step_in_sections_array_def split: if_splits)
next
  case STATE_IN_SECTION
  then show ?thesis using assms
    by (auto simp: step_def Let_def step_in_section_def set_section_def
        split: if_splits sum.splits option.splits)
next
  case STATE_IN_SUBSECTIONS_ARRAY
  then show ?thesis using assms
    by (auto simp: step_def Let_def step_in_subsections_array_def split: if_splits)
next
  case STATE_IN_SUBSECTION
  then show ?thesis using assms
    by (auto simp: step_def Let_def step_in_subsection_def set_subsection_def
        split: if_splits sum.splits option.splits)
next
  case STATE_IN_CONTENT
  then show ?thesis using assms
    by (auto simp: step_def Let_def step_in_content_def set_subsection_def
        split: if_splits sum.splits option.splits)
next
  case STATE_IN_CODE
  then show ?thesis using assms
    by (auto simp: step_def Let_def step_in_code_def set_subsection_def
        split: if_splits sum.splits option.splits)
next
  case STATE_IN_NOTES
  then show ?thesis using assms
    by (auto simp: step_def Let_def step_in_notes_def append_note_def
        split: if_splits option.splits)
next
  case STATE_IN_DECISIONS
  then show ?thesis using assms
    by (auto simp: step_def Let_def step_in_decisions_def append_decision_def
        split: if_splits option.splits)
qed

lemma run_sections: "run st ls = Inr st' \<Longrightarrow> \<exists>new. sections st' = sections st @ new"
proof (induction ls arbitrary: st)
  case Nil
  then show ?case by simp
next
  case (Cons l ls)
  then obtain st1 where s: "step st l = Inr st1" and r: "run st1 ls = Inr st'"
    by (auto split: sum.splits)
  from step_sections[OF s] obtain a where "sections st1 = sections st @ a" by auto
  moreover from Cons.IH[OF r] obtain b where "sections st' = sections st1 @ b" by auto
  ultimately have "sections st' = sections st @ (a @ b)" by simp
  then show ?case by blast
qed

lemma run_prefix:
  assumes "run st (ls1 @ ls2) = Inr st2"
  shows "\<exists>st1 new. run st ls1 = Inr st1 \<and> sections st2 = sections st1 @ new"
proof -
  obtain st1 where 1: "run st ls1 = Inr st1" and 2: "run st1 ls2 = Inr st2"
    using assms by (auto simp: run_append split: sum.splits)
  from run_sections[OF 2] show ?thesis using 1 by blast
qed

lemma step_subsections:
  assumes "step st line = Inr st'" and "current_section st = Some sec"
    and "\<not> opens_section st line"
  shows "\<exists>sec'. current_section st' = Some sec' \<and>
           (sec_subsections sec' = sec_subsections sec \<or>
            (\<exists>sub. current_subsection st = Some sub \<and>
               sec_subsections sec' = sec_subsections sec @ [sub]))"
proof (cases "state st")
  case STATE_ROOT
  then show ?thesis using assms
    by (auto simp: step_def Let_def step_root_def split: if_splits)
next
  case STATE_IN_SECTIONS_ARRAY
  then show ?thesis using assms
    by (auto simp: step_def Let_def step_in_sections_array_def opens_section_def
        split: if_splits)
next
  case STATE_IN_SECTION
  then show ?thesis using assms
    by (auto simp: step_def Let_def step_in_section_def set_section_def
        split: if_splits sum.splits option.splits)
next
  case STATE_IN_SUBSECTIONS_ARRAY
  then show ?thesis using assms
    by (auto simp: step_def Let_def step_in_subsections_array_def split: if_splits)
next
  case STATE_IN_SUBSECTION
  then show ?thesis using assms
    by (auto simp: step_def Let_def step_in_subsection_def set_subsection_def
        split: if_splits sum.splits option.splits)
next
  case STATE_IN_CONTENT
  then show ?thesis using assms
    by (auto simp: step_def Let_def step_in_content_def set_subsection_def
        split: if_splits sum.splits option.splits)
next
  case STATE_IN_CODE
  then show ?thesis using assms
    by (auto simp: step_def Let_def step_in_code_def set_subsection_def
        split: if_splits sum.splits option.splits)
next
  case STATE_IN_NOTES
  then show ?thesis using assms
    by (auto simp: step_def Let_def step_in_notes_def append_note_def
        split: if_splits option.splits)
next
  case STATE_IN_DECISIONS
  then show ?thesis using assms
    by (auto simp: step_def Let_def step_in_decisions_def append_decision_def
        split: if_splits option.splits)
qed

lemma run_subsections:
  "run st ls = Inr st' \<Longrightarrow> current_section st = Some sec \<Longrightarrow> section_openings st ls = 0 \<Longrightarrow>
   \<exists>sec' new. current_section st' = Some sec' \<and>
      sec_subsections sec' = sec_subsections sec @ new"
proof (induction ls arbitrary: st sec)
  case Nil
  then show ?case by simp
next
  case (Cons l ls)
  then obtain st1 where s: "step st l = Inr st1" and r: "run st1 ls = Inr st'"
    by (auto split: sum.splits)
  have no: "\<not> opens_section st l" and rest: "section_openings st1 ls = 0"
    using Cons.prems(3) s by (auto split: if_splits)
  from step_subsections[OF s Cons.prems(2) no] obtain sec1 a
    where 1: "current_section st1 = Some sec1" "sec_subsections sec1 = sec_subsections sec @ a"
    by auto
  from Cons.IH[OF r 1(1) rest] obtain sec' b
    where 2: "current_section st' = Some sec'" "sec_subsections sec' = sec_subsections sec1 @ b"
    by auto
  have "sec_subsections sec' = sec_subsections sec @ (a @ b)" using 1(2) 2(2) by simp
  then show ?case using 2(1) by blast
qed

lemma run_counts:
  "parser_inv st \<Longrightarrow> run st ls = Inr st' \<Longrightarrow>
   sections_listed_or_open st' = sections_listed_or_open st + section_openings st ls \<and>
   subsections_listed_or_open st' = subsections_listed_or_open st + subsection_openings st ls"
proof (induction ls arbitrary: st)
  case Nil
  then show ?case by simp
next
  case (Cons l ls)
  then obtain st1 where s: "step st l = Inr st1" and r: "run st1 ls = Inr st'"
    by (auto split: sum.splits)
  have inv1: "parser_inv st1" using step_ok[OF Cons.prems(1), of l] s by auto
  from step_counts[OF Cons.prems(1) s] Cons.IH[OF inv1 r] s
  show ?case by simp
qed

lemma init_counts: "sections_listed_or_open init = 0" "subsections_listed_or_open init = 0"
  by (simp_all add: count_defs init_def)

lemma two_runs:
  "run init two_head = Inr two_head_done"
  "run init (two_head @ two_tail) = Inr two_done"
  "run two_opened two_body = Inr two_body_done"
  by (simp_all add: two_head_def two_body_def two_tail_def two_head_done_def two_done_def
      two_body_done_def two_opened_def section_a_def section_b_def ev_str ev_step)

lemma two_openings:
  "section_openings init (two_head @ two_tail) = 2"
  "subsection_openings init (two_head @ two_tail) = 2"
  "section_openings two_opened two_body = 0"
  by (simp_all add: two_head_def two_body_def two_tail_def two_opened_def
      opens_section_def opens_subsection_def ev_str ev_step)

lemma two_render:
  "markdown_lines [section_a, section_b] =
     [str ''#  Unknown'', str ''<!-- id: a -->'' @ [NEWLINE],
      str ''## Unknown'', str ''<!-- id: a1 -->'' @ [NEWLINE],
      str ''## Unknown'', str ''<!-- id: a2 -->'' @ [NEWLINE],
      str ''#  Unknown'', str ''<!-- id: b -->'' @ [NEWLINE]]"
  by (simp add: section_a_def section_b_def new_section_def empty_subsection_def ev_str ev_render)

text \<open>
  Claim C6. Sections and subsections are rendered in the order of their opening
  delimiters. Extraction: the sections listed after a prefix of the input stay, in the
  same order, at the front of those listed after the whole input; a step lists at most
  one section, the current one, at the end; from the initial state the number of
  sections opened equals the number listed plus the one still open, and likewise for
  subsections, so no record is lost or overtaken by a later one; and while no other
  section is opened the subsections of the current section only grow at the end.
  Rendering: the document is the concatenation, in list order, of the lines of each
  section, which are its heading followed by the lines of its subsections in list order.
\<close>

theorem declaration_order_preserved:
  "(run sa (la @ lb) = Inr sb \<longrightarrow>
      (\<exists>sm new. run sa la = Inr sm \<and> sections sb = sections sm @ new)) \<and>
   (run init ls = Inr sf \<longrightarrow>
      section_openings init ls = sections_listed_or_open sf \<and>
      subsection_openings init ls = subsections_listed_or_open sf) \<and>
   (run sc lc = Inr sc' \<and> current_section sc = Some sec \<and> section_openings sc lc = 0 \<longrightarrow>
      (\<exists>sec' new. current_section sc' = Some sec' \<and>
         sec_subsections sec' = sec_subsections sec @ new)) \<and>
   (step sd line = Inr sd' \<longrightarrow>
      sections sd' = sections sd \<or>
      (\<exists>closed. current_section sd = Some closed \<and> sections sd' = sections sd @ [closed])) \<and>
   markdown_lines secs =
     concat (map (\<lambda>s. sec_heading s @ concat (map subsection_lines (sec_subsections s))) secs)"
proof -
  have b: "run init ls = Inr sf \<longrightarrow>
      section_openings init ls = sections_listed_or_open sf \<and>
      subsection_openings init ls = subsections_listed_or_open sf"
    using run_counts[OF init_inv, of ls sf] by (simp add: init_counts)
  have e: "markdown_lines secs =
     concat (map (\<lambda>s. sec_heading s @ concat (map subsection_lines (sec_subsections s))) secs)"
  proof -
    have "section_lines =
        (\<lambda>s. sec_heading s @ concat (map subsection_lines (sec_subsections s)))"
      by (rule ext) (simp add: section_lines_def)
    then show ?thesis by (simp add: markdown_lines_eq)
  qed
  show ?thesis
    using run_prefix[of sa la lb sb] b run_subsections[of sc lc sc' sec]
      step_sections[of sd line sd'] e
    by blast
qed

theorem declaration_order_preserved_witness:
  "run init (two_head @ two_tail) = Inr two_done \<and>
   run init two_head = Inr two_head_done \<and>
   sections two_head_done = [section_a] \<and>
   sections two_done = [section_a] @ [section_b] \<and>
   section_openings init (two_head @ two_tail) = 2 \<and>
   sections_listed_or_open two_done = 2 \<and>
   subsection_openings init (two_head @ two_tail) = 2 \<and>
   subsections_listed_or_open two_done = 2 \<and>
   run two_opened two_body = Inr two_body_done \<and>
   current_section two_opened = Some new_section \<and>
   section_openings two_opened two_body = 0 \<and>
   current_section two_body_done = Some section_a \<and>
   sec_subsections section_a =
     sec_subsections new_section @
     [empty_subsection\<lparr>sub_id := Some (str ''a1'')\<rparr>,
      empty_subsection\<lparr>sub_id := Some (str ''a2'')\<rparr>] \<and>
   step two_body_done (str ''},'') = Inr two_head_done \<and>
   markdown_lines (sections two_done) =
     [str ''#  Unknown'', str ''<!-- id: a -->'' @ [NEWLINE],
      str ''## Unknown'', str ''<!-- id: a1 -->'' @ [NEWLINE],
      str ''## Unknown'', str ''<!-- id: a2 -->'' @ [NEWLINE],
      str ''#  Unknown'', str ''<!-- id: b -->'' @ [NEWLINE]]"
proof -
  have s: "step two_body_done (str ''},'') = Inr two_head_done"
    by (simp add: two_body_done_def two_head_done_def ev_str ev_step)
  have c: "sections_listed_or_open two_done = 2" "subsections_listed_or_open two_done = 2"
    by (simp_all add: two_done_def two_body_done_def section_a_def section_b_def
        new_section_def init_def count_defs)
  have r: "markdown_lines (sections two_done) = markdown_lines [section_a, section_b]"
    by (simp add: two_done_def two_body_done_def)
  show ?thesis
    using two_runs two_openings two_render s c r
      declaration_order_preserved
        [where sa = init and la = two_head and lb = two_tail and sb = two_done
           and ls = "two_head @ two_tail" and sf = two_done
           and sc = two_opened and lc = two_body and sc' = two_body_done and sec = new_section
           and sd = two_body_done and line = "str ''},''" and sd' = two_head_done
           and secs = "[section_a, section_b]"]
    by (simp add: two_done_def two_head_done_def two_body_done_def two_opened_def init_def
        section_a_def new_section_def)
qed

section \<open>Multi-line fields\<close>

lemma str_join_snoc:
  "str_join sep (xs @ [y]) = (if xs = [] then y else str_join sep xs @ sep @ y)"
  by (induction sep xs rule: str_join.induct) simp_all

lemma strip_snoc_space:
  assumes "isspace c"
  shows "strip (s @ [c]) = strip s"
proof (cases "\<forall>x\<in>set s. isspace x")
  case True
  then have "lstrip (s @ [c]) = []" "lstrip s = []"
    using assms by (simp_all add: lstrip_def)
  then show ?thesis by (simp add: strip_def)
next
  case False
  then obtain x where "x \<in> set s" "\<not> isspace x" by blast
  then have "lstrip (s @ [c]) = lstrip s @ [c]"
    by (simp add: lstrip_def dropWhile_append1)
  then show ?thesis using assms by (simp add: strip_def rstrip_def)
qed

lemma isspace_newline: "isspace NEWLINE"
  by (simp add: isspace_def NEWLINE_def)

lemma strip_join_kept:
  "strip (str_join [NEWLINE] (xs @ (if v = [] then [] else [v]))) =
   strip (str_join [NEWLINE] (xs @ [v]))"
proof (cases "v = []")
  case True
  show ?thesis
  proof (cases "xs = []")
    case True
    then show ?thesis using \<open>v = []\<close> by simp
  next
    case False
    then have "str_join [NEWLINE] (xs @ [v]) = str_join [NEWLINE] xs @ [NEWLINE]"
      using \<open>v = []\<close> by (simp add: str_join_snoc)
    then show ?thesis using \<open>v = []\<close> by (simp add: strip_snoc_space isspace_newline)
  qed
next
  case False
  then show ?thesis by simp
qed

lemma run_in_content_middle:
  "state st = STATE_IN_CONTENT \<Longrightarrow> \<forall>l\<in>set ms. \<not> closing_line (strip l) \<Longrightarrow>
   run st (ms @ rest) = run (st\<lparr>buffer := buffer st @ ms\<rparr>) rest"
proof (induction ms arbitrary: st)
  case Nil
  then show ?case by simp
next
  case (Cons m ms)
  have s: "step st m = Inr (st\<lparr>buffer := buffer st @ [m]\<rparr>)"
    using Cons.prems by (simp add: step_def step_in_content_def Let_def)
  have "run (st\<lparr>buffer := buffer st @ [m]\<rparr>) (ms @ rest) =
        run (st\<lparr>buffer := buffer st @ [m], buffer := (buffer st @ [m]) @ ms\<rparr>) rest"
    using Cons.IH[of "st\<lparr>buffer := buffer st @ [m]\<rparr>"] Cons.prems by simp
  then show ?case using s by simp
qed

lemma run_in_code_middle:
  "state st = STATE_IN_CODE \<Longrightarrow> \<forall>l\<in>set ms. \<not> closing_line (strip l) \<Longrightarrow>
   run st (ms @ rest) = run (st\<lparr>buffer := buffer st @ ms\<rparr>) rest"
proof (induction ms arbitrary: st)
  case Nil
  then show ?case by simp
next
  case (Cons m ms)
  have s: "step st m = Inr (st\<lparr>buffer := buffer st @ [m]\<rparr>)"
    using Cons.prems by (simp add: step_def step_in_code_def Let_def)
  have "run (st\<lparr>buffer := buffer st @ [m]\<rparr>) (ms @ rest) =
        run (st\<lparr>buffer := buffer st @ [m], buffer := (buffer st @ [m]) @ ms\<rparr>) rest"
    using Cons.IH[of "st\<lparr>buffer := buffer st @ [m]\<rparr>"] Cons.prems by simp
  then show ?case using s by simp
qed

lemma content_marker_only:
  assumes "startswith s (str ''content: `'')"
  shows "\<not> startswith s (str ''id:'')" "\<not> startswith s (str ''title:'')"
proof -
  obtain b where "s = str ''content: `'' @ b" using assms by (auto simp: startswith_iff)
  then show "\<not> startswith s (str ''id:'')" "\<not> startswith s (str ''title:'')"
    by (simp_all add: startswith_def str_def)
qed

lemma code_marker_only:
  assumes "startswith s (str ''code: `'')"
  shows "\<not> startswith s (str ''id:'')" "\<not> startswith s (str ''title:'')"
    "\<not> startswith s (str ''content: `'')"
proof -
  obtain b where "s = str ''code: `'' @ b" using assms by (auto simp: startswith_iff)
  then show "\<not> startswith s (str ''id:'')" "\<not> startswith s (str ''title:'')"
    "\<not> startswith s (str ''content: `'')"
    by (simp_all add: startswith_def str_def)
qed

lemma capture_content:
  assumes "state st = STATE_IN_SUBSECTION" and "current_subsection st = Some sub"
    and "startswith (strip first) (str ''content: `'')"
    and "split1_second first (str ''content: `'') = Inr frag" and "\<not> single_line frag"
    and "\<forall>l\<in>set middle. \<not> closing_line (strip l)" and "closing_line (strip final)"
  shows "run st (first # middle @ [final]) =
           Inr (st\<lparr>buffer := closed_buffer (st\<lparr>buffer := frag # middle\<rparr>) final,
                  current_subsection :=
                    Some (sub\<lparr>sub_content :=
                      Some (str_join [NEWLINE]
                        (closed_buffer (st\<lparr>buffer := frag # middle\<rparr>) final))\<rparr>),
                  state := STATE_IN_SUBSECTION\<rparr>)"
proof -
  let ?s1 = "st\<lparr>buffer := [frag], state := STATE_IN_CONTENT\<rparr>"
  have 1: "step st first = Inr ?s1"
    using assms(1,3,4,5) content_marker_only[OF assms(3)]
    by (simp add: step_def step_in_subsection_def Let_def)
  have 2: "run ?s1 (middle @ [final]) = run (?s1\<lparr>buffer := buffer ?s1 @ middle\<rparr>) [final]"
    using assms(6) by (intro run_in_content_middle) simp_all
  have 3: "step (?s1\<lparr>buffer := buffer ?s1 @ middle\<rparr>) final =
      Inr (st\<lparr>buffer := closed_buffer (st\<lparr>buffer := frag # middle\<rparr>) final,
                  current_subsection :=
                    Some (sub\<lparr>sub_content :=
                      Some (str_join [NEWLINE]
                        (closed_buffer (st\<lparr>buffer := frag # middle\<rparr>) final))\<rparr>),
                  state := STATE_IN_SUBSECTION\<rparr>)"
    using assms(2,7)
    by (simp add: step_def step_in_content_def set_subsection_def closed_buffer_def Let_def)
  show ?thesis using 1 2 3 by simp
qed

lemma capture_code:
  assumes "state st = STATE_IN_SUBSECTION" and "current_subsection st = Some sub"
    and "startswith (strip first) (str ''code: `'')"
    and "split1_second first (str ''code: `'') = Inr frag" and "\<not> single_line frag"
    and "\<forall>l\<in>set middle. \<not> closing_line (strip l)" and "closing_line (strip final)"
  shows "run st (first # middle @ [final]) =
           Inr (st\<lparr>buffer := closed_buffer (st\<lparr>buffer := frag # middle\<rparr>) final,
                  current_subsection :=
                    Some (sub\<lparr>sub_code :=
                      Some (str_join [NEWLINE]
                        (closed_buffer (st\<lparr>buffer := frag # middle\<rparr>) final))\<rparr>),
                  state := STATE_IN_SUBSECTION\<rparr>)"
proof -
  let ?s1 = "st\<lparr>buffer := [frag], state := STATE_IN_CODE\<rparr>"
  have 1: "step st first = Inr ?s1"
    using assms(1,3,4,5) code_marker_only[OF assms(3)]
    by (simp add: step_def step_in_subsection_def Let_def)
  have 2: "run ?s1 (middle @ [final]) = run (?s1\<lparr>buffer := buffer ?s1 @ middle\<rparr>) [final]"
    using assms(6) by (intro run_in_code_middle) simp_all
  have 3: "step (?s1\<lparr>buffer := buffer ?s1 @ middle\<rparr>) final =
      Inr (st\<lparr>buffer := closed_buffer (st\<lparr>buffer := frag # middle\<rparr>) final,
                  current_subsection :=
                    Some (sub\<lparr>sub_code :=
                      Some (str_join [NEWLINE]
                        (closed_buffer (st\<lparr>buffer := frag # middle\<rparr>) final))\<rparr>),
                  state := STATE_IN_SUBSECTION\<rparr>)"
    using assms(2,7)
    by (simp add: step_def step_in_code_def set_subsection_def closed_buffer_def Let_def)
  show ?thesis using 1 2 3 by simp
qed

lemma fidelity_split:
  "str_split NEWLINE (str_join [NEWLINE] fidelity_lines) = fidelity_lines"
  by (simp add: fidelity_lines_def BACKSLASH_def ev_str)

lemma fidelity_run:
  "case run init fidelity_lines of
     Inl e \<Rightarrow> False
   | Inr st \<Rightarrow>
       sections st =
         [new_section\<lparr>sec_subsections :=
            [empty_subsection\<lparr>sub_content := Some fidelity_field\<rparr>]\<rparr>]"
  by (simp add: fidelity_lines_def fidelity_field_def BACKSLASH_def ev_str ev_step)

text \<open>
  Claim C5, evaluated on a field whose last line ends with a backtick. The content
  field opens with \<^verbatim>\<open>a\<close> and its closing line is \<^verbatim>\<open>b\`\<close> followed by the
  closing backtick and a comma. The field extracted ends with the backslash: the
  multi-line branch strips every trailing backtick of the closing line, so the rendered
  block does not reproduce the last line of the field, and the difference is not a trim
  of whitespace. The single-line branch cuts the same text at its last backtick only and
  keeps \<^verbatim>\<open>b\`\<close>.
\<close>

theorem trailing_backtick_not_reproduced:
  "fidelity_lines ! 4 = str ''content: `'' @ str ''a'' \<and>
   fidelity_lines ! 5 = (str ''b'' @ [BACKSLASH, BACKTICK]) @ [BACKTICK, COMMA] \<and>
   parse_ts_file (str_join [NEWLINE] fidelity_lines) =
     Inr [new_section\<lparr>sec_subsections :=
            [empty_subsection\<lparr>sub_content := Some fidelity_field\<rparr>]\<rparr>] \<and>
   content_block (Some fidelity_field) = [str ''a'' @ [NEWLINE] @ str ''b'' @ [BACKSLASH, NEWLINE]] \<and>
   content_block (Some fidelity_field) \<noteq>
     [strip (str_join [NEWLINE] [str ''a'', str ''b'' @ [BACKSLASH, BACKTICK]]) @ [NEWLINE]] \<and>
   step in_subsection (str ''content: `'' @ (str ''b'' @ [BACKSLASH, BACKTICK]) @ [BACKTICK, COMMA]) =
     Inr (in_subsection\<lparr>current_subsection :=
            Some (empty_subsection\<lparr>sub_content := Some (str ''b'' @ [BACKSLASH, BACKTICK])\<rparr>)\<rparr>)"
proof -
  have p: "parse_ts_file (str_join [NEWLINE] fidelity_lines) =
     Inr [new_section\<lparr>sec_subsections :=
            [empty_subsection\<lparr>sub_content := Some fidelity_field\<rparr>]\<rparr>]"
    using fidelity_run by (simp add: parse_ts_file_def fidelity_split split: sum.splits)
  have l: "fidelity_lines ! 4 = str ''content: `'' @ str ''a''"
    "fidelity_lines ! 5 = (str ''b'' @ [BACKSLASH, BACKTICK]) @ [BACKTICK, COMMA]"
    by (simp_all add: fidelity_lines_def str_def)
  have b: "content_block (Some fidelity_field) =
      [str ''a'' @ [NEWLINE] @ str ''b'' @ [BACKSLASH, NEWLINE]]"
    "content_block (Some fidelity_field) \<noteq>
     [strip (str_join [NEWLINE] [str ''a'', str ''b'' @ [BACKSLASH, BACKTICK]]) @ [NEWLINE]]"
    by (simp_all add: content_block_def fidelity_field_def BACKSLASH_def ev_str)
  have s: "step in_subsection
      (str ''content: `'' @ (str ''b'' @ [BACKSLASH, BACKTICK]) @ [BACKTICK, COMMA]) =
     Inr (in_subsection\<lparr>current_subsection :=
            Some (empty_subsection\<lparr>sub_content := Some (str ''b'' @ [BACKSLASH, BACKTICK])\<rparr>)\<rparr>)"
    by (simp add: in_subsection_def BACKSLASH_def ev_str ev_step)
  show ?thesis using p l b s by simp
qed

text \<open>
  Outside that case the field is rendered faithfully. A content or code field captured
  across several lines (the fragment after the opening backtick, lines that are not
  closing lines, and a closing line made of a text that does not end with a backtick,
  the backtick, commas and whitespace) is stored as the fragment, the lines in between
  and that text, joined by newlines; the rendered block is this text line for line, up
  to one trim of leading and trailing whitespace of the whole field, and there is no
  block when the field is empty.
\<close>

theorem multiline_field_fidelity:
  assumes "state st = STATE_IN_SUBSECTION" and "current_subsection st = Some sub"
    and "\<not> single_line frag" and "\<forall>l\<in>set middle. \<not> closing_line (strip l)"
    and "closing_line (strip final)"
    and "final = kept @ [BACKTICK] @ replicate j COMMA @ ws"
    and "\<forall>c\<in>set ws. isspace c" and "\<not> endswith kept [BACKTICK]"
  shows
    "(startswith (strip first) (str ''content: `'') \<and>
      split1_second first (str ''content: `'') = Inr frag \<longrightarrow>
        (\<exists>st'. run st (first # middle @ [final]) = Inr st' \<and>
           state st' = STATE_IN_SUBSECTION \<and>
           current_subsection st' =
             Some (sub\<lparr>sub_content := Some (captured_field frag middle final)\<rparr>))) \<and>
     (startswith (strip first) (str ''code: `'') \<and>
      split1_second first (str ''code: `'') = Inr frag \<longrightarrow>
        (\<exists>st'. run st (first # middle @ [final]) = Inr st' \<and>
           state st' = STATE_IN_SUBSECTION \<and>
           current_subsection st' =
             Some (sub\<lparr>sub_code := Some (captured_field frag middle final)\<rparr>))) \<and>
     captured_field frag middle final =
       str_join [NEWLINE] (frag # middle @ (if kept = [] then [] else [kept])) \<and>
     strip (captured_field frag middle final) =
       strip (str_join [NEWLINE] (frag # middle @ [kept])) \<and>
     render_content md (captured_field frag middle final) =
       (if captured_field frag middle final = [] then md
        else md @ [strip (str_join [NEWLINE] (frag # middle @ [kept])) @ [NEWLINE]]) \<and>
     render_code md (captured_field frag middle final) =
       (if captured_field frag middle final = [] then md
        else md @
          (if looks_like_diagram (captured_field frag middle final)
           then [str ''```typescript'', str ''```text''] else [str ''```typescript'']) @
          [strip (str_join [NEWLINE] (frag # middle @ [kept])),
           str ''```'' @ [NEWLINE]])"
proof -
  let ?f = "captured_field frag middle final"
  have kv: "closing_val final = kept"
    using closing_val_exact[OF assms(6,7,8)] .
  have cb: "closed_buffer (st\<lparr>buffer := frag # middle\<rparr>) final =
      frag # middle @ (if closing_val final = [] then [] else [closing_val final])"
    by (simp add: closed_buffer_def)
  have 1: "startswith (strip first) (str ''content: `'') \<and>
      split1_second first (str ''content: `'') = Inr frag \<longrightarrow>
        (\<exists>st'. run st (first # middle @ [final]) = Inr st' \<and>
           state st' = STATE_IN_SUBSECTION \<and>
           current_subsection st' = Some (sub\<lparr>sub_content := Some ?f\<rparr>))"
  proof
    assume h: "startswith (strip first) (str ''content: `'') \<and>
      split1_second first (str ''content: `'') = Inr frag"
    show "\<exists>st'. run st (first # middle @ [final]) = Inr st' \<and>
           state st' = STATE_IN_SUBSECTION \<and>
           current_subsection st' = Some (sub\<lparr>sub_content := Some ?f\<rparr>)"
      using capture_content[OF assms(1,2) conjunct1[OF h] conjunct2[OF h] assms(3,4,5)]
      by (simp add: cb captured_field_def)
  qed
  have 2: "startswith (strip first) (str ''code: `'') \<and>
      split1_second first (str ''code: `'') = Inr frag \<longrightarrow>
        (\<exists>st'. run st (first # middle @ [final]) = Inr st' \<and>
           state st' = STATE_IN_SUBSECTION \<and>
           current_subsection st' = Some (sub\<lparr>sub_code := Some ?f\<rparr>))"
  proof
    assume h: "startswith (strip first) (str ''code: `'') \<and>
      split1_second first (str ''code: `'') = Inr frag"
    show "\<exists>st'. run st (first # middle @ [final]) = Inr st' \<and>
           state st' = STATE_IN_SUBSECTION \<and>
           current_subsection st' = Some (sub\<lparr>sub_code := Some ?f\<rparr>)"
      using capture_code[OF assms(1,2) conjunct1[OF h] conjunct2[OF h] assms(3,4,5)]
      by (simp add: cb captured_field_def)
  qed
  have 0: "?f = str_join [NEWLINE] (frag # middle @ (if kept = [] then [] else [kept]))"
    by (simp add: captured_field_def kv)
  have 3: "strip ?f = strip (str_join [NEWLINE] (frag # middle @ [kept]))"
    unfolding 0 using strip_join_kept[of "frag # middle" kept] by simp
  have 5: "render_content md ?f =
       (if ?f = [] then md
        else md @ [strip (str_join [NEWLINE] (frag # middle @ [kept])) @ [NEWLINE]])"
    using 3 by (simp add: render_content_def)
  have 6: "render_code md ?f =
       (if ?f = [] then md
        else md @
          (if looks_like_diagram ?f
           then [str ''```typescript'', str ''```text''] else [str ''```typescript'']) @
          [strip (str_join [NEWLINE] (frag # middle @ [kept])),
           str ''```'' @ [NEWLINE]])"
    using 3 render_code_eq[of md "Some ?f"] by (simp add: get_or_def code_block_def)
  show ?thesis using 1 2 0 3 5 6 by blast
qed

theorem multiline_field_fidelity_witness:
  "state in_subsection = STATE_IN_SUBSECTION \<and>
   current_subsection in_subsection = Some empty_subsection \<and>
   \<not> single_line (str ''Hello'') \<and>
   \<not> closing_line (strip []) \<and> \<not> closing_line (strip (str ''    indented'')) \<and>
   closing_line (strip (str ''World`,'')) \<and>
   str ''World`,'' = str ''World'' @ [BACKTICK] @ replicate 1 COMMA @ [] \<and>
   \<not> endswith (str ''World'') [BACKTICK] \<and>
   startswith (strip (str ''  content: `Hello'')) (str ''content: `'') \<and>
   split1_second (str ''  content: `Hello'') (str ''content: `'') = Inr (str ''Hello'') \<and>
   startswith (strip (str ''  code: `Hello'')) (str ''code: `'') \<and>
   split1_second (str ''  code: `Hello'') (str ''code: `'') = Inr (str ''Hello'') \<and>
   captured_field (str ''Hello'') [[], str ''    indented''] (str ''World`,'') =
     str ''Hello'' @ [NEWLINE, NEWLINE] @ str ''    indented'' @ [NEWLINE] @ str ''World'' \<and>
   (\<exists>st'. run in_subsection
            [str ''  content: `Hello'', [], str ''    indented'', str ''World`,''] = Inr st' \<and>
      current_subsection st' =
        Some (empty_subsection\<lparr>sub_content :=
          Some (str ''Hello'' @ [NEWLINE, NEWLINE] @ str ''    indented'' @ [NEWLINE] @
                str ''World'')\<rparr>)) \<and>
   (\<exists>st'. run in_subsection
            [str ''  code: `Hello'', [], str ''    indented'', str ''World`,''] = Inr st' \<and>
      current_subsection st' =
        Some (empty_subsection\<lparr>sub_code :=
          Some (str ''Hello'' @ [NEWLINE, NEWLINE] @ str ''    indented'' @ [NEWLINE] @
                str ''World'')\<rparr>)) \<and>
   render_content []
     (captured_field (str ''Hello'') [[], str ''    indented''] (str ''World`,'')) =
     [str ''Hello'' @ [NEWLINE, NEWLINE] @ str ''    indented'' @ [NEWLINE] @ str ''World'' @
      [NEWLINE]]"
proof -
  have a: "state in_subsection = STATE_IN_SUBSECTION"
    "current_subsection in_subsection = Some empty_subsection"
    by (simp_all add: in_subsection_def init_def)
  have b: "\<not> single_line (str ''Hello'')"
    "\<forall>l\<in>set [[], str ''    indented'']. \<not> closing_line (strip l)"
    "closing_line (strip (str ''World`,''))"
    by (simp_all add: single_line_def closing_line_def ev_str)
  have c: "startswith (strip (str ''  content: `Hello'')) (str ''content: `'')"
    "split1_second (str ''  content: `Hello'') (str ''content: `'') = Inr (str ''Hello'')"
    "startswith (strip (str ''  code: `Hello'')) (str ''code: `'')"
    "split1_second (str ''  code: `Hello'') (str ''code: `'') = Inr (str ''Hello'')"
    by (simp_all add: ev_str)
  have f: "captured_field (str ''Hello'') [[], str ''    indented''] (str ''World`,'') =
     str ''Hello'' @ [NEWLINE, NEWLINE] @ str ''    indented'' @ [NEWLINE] @ str ''World''"
    by (simp add: captured_field_def closing_val_def ev_str)
  have k: "str ''World`,'' = str ''World'' @ [BACKTICK] @ replicate 1 COMMA @ []"
    "\<forall>c\<in>set ([] :: ustring). isspace c" "\<not> endswith (str ''World'') [BACKTICK]"
    by (simp_all add: ev_str)
  note m1 = multiline_field_fidelity [OF a b k, where first = "str ''  content: `Hello''"
              and md = "[]"]
  note m2 = multiline_field_fidelity [OF a b k, where first = "str ''  code: `Hello''"
              and md = "[]"]
  have r1: "\<exists>st'. run in_subsection
            [str ''  content: `Hello'', [], str ''    indented'', str ''World`,''] = Inr st' \<and>
      current_subsection st' =
        Some (empty_subsection\<lparr>sub_content :=
          Some (str ''Hello'' @ [NEWLINE, NEWLINE] @ str ''    indented'' @ [NEWLINE] @
                str ''World'')\<rparr>)"
  proof -
    from conjunct1[OF m1] c(1,2) obtain st' where
      "run in_subsection (str ''  content: `Hello'' # [[], str ''    indented''] @ [str ''World`,'']) =
         Inr st'"
      "current_subsection st' =
         Some (empty_subsection\<lparr>sub_content :=
           Some (captured_field (str ''Hello'') [[], str ''    indented''] (str ''World`,''))\<rparr>)"
      by blast
    then show ?thesis unfolding f by (intro exI[of _ st']) simp
  qed
  have r2: "\<exists>st'. run in_subsection
            [str ''  code: `Hello'', [], str ''    indented'', str ''World`,''] = Inr st' \<and>
      current_subsection st' =
        Some (empty_subsection\<lparr>sub_code :=
          Some (str ''Hello'' @ [NEWLINE, NEWLINE] @ str ''    indented'' @ [NEWLINE] @
                str ''World'')\<rparr>)"
  proof -
    from conjunct1[OF conjunct2[OF m2]] c(3,4) obtain st' where
      "run in_subsection (str ''  code: `Hello'' # [[], str ''    indented''] @ [str ''World`,'']) =
         Inr st'"
      "current_subsection st' =
         Some (empty_subsection\<lparr>sub_code :=
           Some (captured_field (str ''Hello'') [[], str ''    indented''] (str ''World`,''))\<rparr>)"
      by blast
    then show ?thesis unfolding f by (intro exI[of _ st']) simp
  qed
  have r3: "render_content []
     (captured_field (str ''Hello'') [[], str ''    indented''] (str ''World`,'')) =
     [str ''Hello'' @ [NEWLINE, NEWLINE] @ str ''    indented'' @ [NEWLINE] @ str ''World'' @
      [NEWLINE]]"
    unfolding f by (simp add: render_content_def ev_str)
  have b': "\<not> closing_line (strip [])" "\<not> closing_line (strip (str ''    indented''))"
    using b(2) by simp_all
  show ?thesis by (intro conjI a b(1,3) b' c f k(1,3) r1 r2 r3)
qed

end
